theory Spec2Isabelle
  imports Complex_Main "HOL-Library.Sublist" "HOL-Library.List_Lexorder"
    "HOL-Library.Char_ord" "HOL-Library.FSet"
begin

section \<open>The dataset browser of veusz: \<^verbatim>\<open>veusz/qtwidgets/datasetbrowser.py\<close>\<close>

text \<open>
  A shallow embedding of the data transformations of the dataset browser: the
  text/dimension/type filter, the construction of the grouped tree of datasets, the
  rename operation, the lookups of a dataset node and the preview of a dataset.
  Exceptions of the Python code are values of the type \<open>error\<close>, and a function that
  can raise returns a sum \<open>error + 'a\<close> with \<open>Inl\<close> for the exception.
\<close>

subsection \<open>Python strings\<close>

datatype error = KeyError | ValueError | ZeroDivisionError | IndexError | AssertionError

text \<open>
  \<^verbatim>\<open>t.find(s)\<close>: the lowest index at which \<open>s\<close> occurs in \<open>t\<close>, or \<open>-1\<close>.
  Characters are compared as they are, so the search is case-sensitive.
\<close>

fun find_from :: "int \<Rightarrow> string \<Rightarrow> string \<Rightarrow> int" where
  "find_from i [] s = (if s = [] then i else - 1)"
| "find_from i (c # t) s = (if prefix s (c # t) then i else find_from (i + 1) t s)"

definition str_find :: "string \<Rightarrow> string \<Rightarrow> int" where
  "str_find t s = find_from 0 t s"

text \<open>\<^verbatim>\<open>os.path.basename\<close> (posixpath): what follows the last slash.\<close>

definition basename :: "string \<Rightarrow> string" where
  "basename p = rev (takeWhile (\<lambda>c. c \<noteq> CHR ''/'') (rev p))"

subsection \<open>Datasets and the document\<close>

text \<open>
  The values of a numeric dataset are numpy float64 numbers. The embedding keeps the
  three special values apart from the finite ones; a finite value is a real number
  (rounding and overflow of finite arithmetic are not modelled).
\<close>

datatype npfloat = Fin real | PInf | NInf | NaN

text \<open>
  A dataset of the document, with the attributes and the results of the methods that
  the browser reads: \<^verbatim>\<open>ds.dimensions\<close>, \<^verbatim>\<open>ds.datatype\<close>, \<^verbatim>\<open>ds.dstype\<close>, \<^verbatim>\<open>ds.data\<close>,
  \<^verbatim>\<open>ds.tags\<close> (a set of strings), \<^verbatim>\<open>ds.linked\<close> (\<open>None\<close>, or a linked file of which
  only \<^verbatim>\<open>filename\<close> is read), \<^verbatim>\<open>ds.userSize()\<close>, \<^verbatim>\<open>ds.description()\<close>,
  \<^verbatim>\<open>ds.userPreview()\<close> and \<^verbatim>\<open>ds.linkedInformation()\<close>.
\<close>

record dataset =
  dimensions :: int
  ds_datatype :: string
  dstype :: string
  ds_data :: "npfloat list"
  tags :: "string fset"
  linked :: "string option"
  userSize :: string
  description :: "string option"
  userPreview :: string
  linkedInformation :: string

text \<open>
  \<^verbatim>\<open>doc.data\<close> is a dictionary from dataset names to datasets. It is an association
  list here, in the order in which the dictionary is iterated; the keys of a
  dictionary are distinct (\<open>wf_doc\<close>).
\<close>

record document =
  doc_data :: "(string \<times> dataset) list"

definition wf_doc :: "document \<Rightarrow> bool" where
  "wf_doc doc = distinct (map fst (doc_data doc))"

definition doc_lookup :: "document \<Rightarrow> string \<Rightarrow> error + dataset" where
  "doc_lookup doc name =
     (case map_of (doc_data doc) name of None \<Rightarrow> Inl KeyError | Some ds \<Rightarrow> Inr ds)"

definition datasetLinkFile :: "dataset \<Rightarrow> string" where
  "datasetLinkFile ds = (case linked ds of None \<Rightarrow> ''/'' | Some filename \<Rightarrow> filename)"

subsection \<open>Tree nodes\<close>

text \<open>
  The three node classes of the browser. \<^verbatim>\<open>TMNode\<close> holds a tuple of column values
  and its child nodes; \<^verbatim>\<open>DatasetNode\<close> also keeps the names of its columns. The
  parent pointer of a node is the position of the node in the tree.
\<close>

datatype node =
    TMNode (data: "string list") (childnodes: "node list")
  | DatasetNode (data: "string list") (cols: "string list") (childnodes: "node list")
  | FilenameNode (data: "string list") (childnodes: "node list")

datatype nodeclass = TMNodeClass | FilenameNodeClass

fun new_node :: "nodeclass \<Rightarrow> string list \<Rightarrow> node" where
  "new_node TMNodeClass d = TMNode d []"
| "new_node FilenameNodeClass d = FilenameNode d []"

fun is_DatasetNode :: "node \<Rightarrow> bool" where
  "is_DatasetNode (DatasetNode d c ch) = True"
| "is_DatasetNode (TMNode d ch) = False"
| "is_DatasetNode (FilenameNode d ch) = False"

fun set_childnodes :: "node \<Rightarrow> node list \<Rightarrow> node" where
  "set_childnodes (TMNode d ch) ch' = TMNode d ch'"
| "set_childnodes (DatasetNode d c ch) ch' = DatasetNode d c ch'"
| "set_childnodes (FilenameNode d ch) ch' = FilenameNode d ch'"

text \<open>
  \<^verbatim>\<open>DatasetNode.__init__\<close>: the column values of a dataset, one for each known
  column name.
\<close>

fun column_values :: "string \<Rightarrow> dataset \<Rightarrow> string list \<Rightarrow> string list" where
  "column_values dsname ds [] = []"
| "column_values dsname ds (c # cs) =
     (if c = ''name'' then dsname # column_values dsname ds cs
      else if c = ''size'' then userSize ds # column_values dsname ds cs
      else if c = ''type'' then dstype ds # column_values dsname ds cs
      else if c = ''linkfile'' then basename (datasetLinkFile ds) # column_values dsname ds cs
      else column_values dsname ds cs)"

definition DatasetNode_init :: "document \<Rightarrow> string \<Rightarrow> string list \<Rightarrow> error + node" where
  "DatasetNode_init doc dsname cs =
     (case doc_lookup doc dsname of
        Inl e \<Rightarrow> Inl e
      | Inr ds \<Rightarrow>
          (case cs of
             [] \<Rightarrow> Inl IndexError
           | c # cs' \<Rightarrow>
               if c \<noteq> ''name'' then Inl AssertionError
               else Inr (DatasetNode (column_values dsname ds cs) cs [])))"

text \<open>
  Modelled from the spec: \<^verbatim>\<open>TMNode.insertChildSorted\<close> of \<^verbatim>\<open>veusz/utils/treemodel.py\<close>,
  which is not among the sources. The spec: child insertion is sorted, lexicographic
  on the child's first column value, ties broken by the subsequent columns, and
  stable. The columns are strings, compared character by character by their codes.
\<close>

fun insert_sorted :: "node \<Rightarrow> node list \<Rightarrow> node list" where
  "insert_sorted c [] = [c]"
| "insert_sorted c (d # ds) =
     (if data c < data d then c # d # ds else d # insert_sorted c ds)"

definition insertChildSorted :: "node \<Rightarrow> node \<Rightarrow> node" where
  "insertChildSorted self newchild =
     set_childnodes self (insert_sorted newchild (childnodes self))"

fun treeFromList :: "node list \<Rightarrow> string list \<Rightarrow> node" where
  "treeFromList nodelist rootdata = fold (\<lambda>n tree. insertChildSorted tree n) nodelist (TMNode rootdata [])"

subsection \<open>The model of the tree view and its filter\<close>

text \<open>
  \<^verbatim>\<open>DatasetRelationModel\<close>: the document, the grouping mode, the filter text and the
  optional sets of allowed dimensions and datatypes.
\<close>

record model =
  doc :: document
  grouping :: string
  filter_text :: string
  readonly :: bool
  filterdims :: "int set option"
  filterdtype :: "string set option"

definition datasetFilterOut :: "model \<Rightarrow> dataset \<Rightarrow> node \<Rightarrow> bool" where
  "datasetFilterOut self ds nd =
     (let keep =
            (if filter_text self \<noteq> ''''
             then fBex (tags ds) (\<lambda>t. 0 \<le> str_find t (filter_text self))
                  \<or> list_ex (\<lambda>t. 0 \<le> str_find t (filter_text self)) (data nd)
             else True);
          filterout =
            ((case filterdims self of None \<Rightarrow> False | Some fd \<Rightarrow> dimensions ds \<notin> fd)
             \<or> (case filterdtype self of None \<Rightarrow> False | Some ft \<Rightarrow> ds_datatype ds \<notin> ft))
      in if filterout then True else \<not> keep)"

text \<open>
  The node that \<^verbatim>\<open>DatasetNode(doc, name, colitems, None)\<close> makes for an item
  \<open>(name, ds)\<close> of \<^verbatim>\<open>doc.data\<close>, and whether the filter keeps the item.
\<close>

definition dataset_node :: "string list \<Rightarrow> string \<times> dataset \<Rightarrow> node" where
  "dataset_node colitems item =
     DatasetNode (column_values (fst item) (snd item) colitems) colitems []"

definition passes :: "model \<Rightarrow> string list \<Rightarrow> string \<times> dataset \<Rightarrow> bool" where
  "passes self colitems item =
     (\<not> datasetFilterOut self (snd item) (dataset_node colitems item))"

subsection \<open>Building the tree\<close>

text \<open>
  The translation function \<^verbatim>\<open>_\<close> depends on the installed translators; it is the
  parameter \<open>tr\<close> of the functions that build a tree.

  \<^verbatim>\<open>makeGrpTreeNone\<close>: the loop over \<^verbatim>\<open>citems(self.doc.data)\<close>, then the function.
\<close>

fun none_loop :: "model \<Rightarrow> (string \<times> dataset) list \<Rightarrow> node \<Rightarrow> error + node" where
  "none_loop self [] tree = Inr tree"
| "none_loop self ((name, ds) # items) tree =
     (case DatasetNode_init (doc self) name [''name'', ''size'', ''type'', ''linkfile''] of
        Inl e \<Rightarrow> Inl e
      | Inr child \<Rightarrow>
          none_loop self items
            (if \<not> datasetFilterOut self ds child then insertChildSorted tree child else tree))"

definition makeGrpTreeNone :: "(string \<Rightarrow> string) \<Rightarrow> model \<Rightarrow> error + node" where
  "makeGrpTreeNone tr self =
     none_loop self (doc_data (doc self))
       (TMNode [tr ''Dataset'', tr ''Size'', tr ''Type'', tr ''File''] [])"

text \<open>
  \<^verbatim>\<open>makeGrpTree\<close>. The dictionary \<^verbatim>\<open>grpnodes\<close> is an association list in the order in
  which its keys were added. \<open>group_insert\<close> is the body of the loop over the groups
  of one dataset: the group node is made when the group is not yet a key, and the
  child is inserted into the group node.
\<close>

fun group_insert :: "nodeclass \<Rightarrow> node \<Rightarrow> string \<Rightarrow> (string \<times> node) list \<Rightarrow> (string \<times> node) list" where
  "group_insert cls child grp [] = [(grp, insertChildSorted (new_node cls [grp]) child)]"
| "group_insert cls child grp ((g, n) # rest) =
     (if g = grp then (g, insertChildSorted n child) # rest
      else (g, n) # group_insert cls child grp rest)"

fun grp_loop ::
  "model \<Rightarrow> string list \<Rightarrow> (dataset \<Rightarrow> string list) \<Rightarrow> nodeclass \<Rightarrow>
   (string \<times> dataset) list \<Rightarrow> (string \<times> node) list \<Rightarrow> error + (string \<times> node) list" where
  "grp_loop self colitems grouper cls [] grpnodes = Inr grpnodes"
| "grp_loop self colitems grouper cls ((name, ds) # items) grpnodes =
     (case DatasetNode_init (doc self) name colitems of
        Inl e \<Rightarrow> Inl e
      | Inr child \<Rightarrow>
          grp_loop self colitems grouper cls items
            (if \<not> datasetFilterOut self ds child
             then fold (group_insert cls child) (grouper ds) grpnodes
             else grpnodes))"

definition makeGrpTree ::
  "model \<Rightarrow> string list \<Rightarrow> string list \<Rightarrow> (dataset \<Rightarrow> string list) \<Rightarrow> nodeclass \<Rightarrow>
   error + node" where
  "makeGrpTree self coltitles colitems grouper cls =
     (case grp_loop self colitems grouper cls (doc_data (doc self)) [] of
        Inl e \<Rightarrow> Inl e
      | Inr grpnodes \<Rightarrow> Inr (treeFromList (map snd grpnodes) coltitles))"

definition makeGrpTreeFilename :: "(string \<Rightarrow> string) \<Rightarrow> model \<Rightarrow> error + node" where
  "makeGrpTreeFilename tr self =
     makeGrpTree self [tr ''Dataset'', tr ''Size'', tr ''Type'']
       [''name'', ''size'', ''type'']
       (\<lambda>ds. [datasetLinkFile ds])
       FilenameNodeClass"

definition makeGrpTreeSize :: "(string \<Rightarrow> string) \<Rightarrow> model \<Rightarrow> error + node" where
  "makeGrpTreeSize tr self =
     makeGrpTree self [tr ''Dataset'', tr ''Type'', tr ''Filename'']
       [''name'', ''type'', ''linkfile'']
       (\<lambda>ds. [userSize ds])
       TMNodeClass"

definition makeGrpTreeType :: "(string \<Rightarrow> string) \<Rightarrow> model \<Rightarrow> error + node" where
  "makeGrpTreeType tr self =
     makeGrpTree self [tr ''Dataset'', tr ''Size'', tr ''Filename'']
       [''name'', ''size'', ''linkfile'']
       (\<lambda>ds. [dstype ds])
       TMNodeClass"

definition getgrp :: "(string \<Rightarrow> string) \<Rightarrow> dataset \<Rightarrow> string list" where
  "getgrp tr ds = (if tags ds \<noteq> {||} then sorted_list_of_fset (tags ds) else [tr ''None''])"

definition makeGrpTreeTags :: "(string \<Rightarrow> string) \<Rightarrow> model \<Rightarrow> error + node" where
  "makeGrpTreeTags tr self =
     makeGrpTree self [tr ''Dataset'', tr ''Size'', tr ''Type'', tr ''Filename'']
       [''name'', ''size'', ''type'', ''linkfile'']
       (getgrp tr)
       TMNodeClass"

text \<open>
  The tree that \<^verbatim>\<open>refresh\<close> builds: the grouping mode selects the function, and a
  mode that is not a key of the table is a \<^verbatim>\<open>KeyError\<close>.
\<close>

definition refresh_tree :: "(string \<Rightarrow> string) \<Rightarrow> model \<Rightarrow> error + node" where
  "refresh_tree tr self =
     (if grouping self = ''none'' then makeGrpTreeNone tr self
      else if grouping self = ''filename'' then makeGrpTreeFilename tr self
      else if grouping self = ''size'' then makeGrpTreeSize tr self
      else if grouping self = ''type'' then makeGrpTreeType tr self
      else if grouping self = ''tags'' then makeGrpTreeTags tr self
      else Inl KeyError)"

text \<open>
  The group labels under which a node occurs in a grouped tree, one entry for each
  occurrence, in the order of the tree.
\<close>

definition occurrences :: "node \<Rightarrow> (node \<Rightarrow> bool) \<Rightarrow> string list list" where
  "occurrences tree P =
     concat (map (\<lambda>g. map (\<lambda>c. data g) (filter P (childnodes g))) (childnodes tree))"

subsection \<open>The preview of a dataset\<close>

text \<open>
  numpy's arithmetic on float64 values: a finite result is the exact real result, and
  the special values follow IEEE 754 (signed zeros are not kept apart: a zero divisor
  is the positive zero, which is what the difference of two equal values is).
  Dividing an array by zero gives \<open>nan\<close> or an infinity with a warning and does not
  raise.
\<close>

fun isfinite :: "npfloat \<Rightarrow> bool" where
  "isfinite (Fin a) = True"
| "isfinite PInf = False"
| "isfinite NInf = False"
| "isfinite NaN = False"

fun np_neg :: "npfloat \<Rightarrow> npfloat" where
  "np_neg (Fin a) = Fin (- a)"
| "np_neg PInf = NInf"
| "np_neg NInf = PInf"
| "np_neg NaN = NaN"

fun np_add :: "npfloat \<Rightarrow> npfloat \<Rightarrow> npfloat" where
  "np_add NaN b = NaN"
| "np_add a NaN = NaN"
| "np_add PInf NInf = NaN"
| "np_add NInf PInf = NaN"
| "np_add PInf b = PInf"
| "np_add NInf b = NInf"
| "np_add (Fin a) PInf = PInf"
| "np_add (Fin a) NInf = NInf"
| "np_add (Fin a) (Fin b) = Fin (a + b)"

definition np_sub :: "npfloat \<Rightarrow> npfloat \<Rightarrow> npfloat" where
  "np_sub a b = np_add a (np_neg b)"

fun np_mul :: "npfloat \<Rightarrow> npfloat \<Rightarrow> npfloat" where
  "np_mul NaN b = NaN"
| "np_mul a NaN = NaN"
| "np_mul (Fin a) (Fin b) = Fin (a * b)"
| "np_mul (Fin a) PInf = (if a = 0 then NaN else if 0 < a then PInf else NInf)"
| "np_mul (Fin a) NInf = (if a = 0 then NaN else if 0 < a then NInf else PInf)"
| "np_mul PInf (Fin b) = (if b = 0 then NaN else if 0 < b then PInf else NInf)"
| "np_mul NInf (Fin b) = (if b = 0 then NaN else if 0 < b then NInf else PInf)"
| "np_mul PInf PInf = PInf"
| "np_mul PInf NInf = NInf"
| "np_mul NInf PInf = NInf"
| "np_mul NInf NInf = PInf"

fun np_div :: "npfloat \<Rightarrow> npfloat \<Rightarrow> npfloat" where
  "np_div NaN b = NaN"
| "np_div a NaN = NaN"
| "np_div (Fin a) (Fin b) =
     (if b = 0 then (if a = 0 then NaN else if 0 < a then PInf else NInf) else Fin (a / b))"
| "np_div (Fin a) PInf = Fin 0"
| "np_div (Fin a) NInf = Fin 0"
| "np_div PInf (Fin b) = (if 0 \<le> b then PInf else NInf)"
| "np_div NInf (Fin b) = (if 0 \<le> b then NInf else PInf)"
| "np_div PInf PInf = NaN"
| "np_div PInf NInf = NaN"
| "np_div NInf PInf = NaN"
| "np_div NInf NInf = NaN"

text \<open>Comparisons: every comparison with \<open>nan\<close> is false.\<close>

fun np_le :: "npfloat \<Rightarrow> npfloat \<Rightarrow> bool" where
  "np_le NaN b = False"
| "np_le a NaN = False"
| "np_le NInf b = True"
| "np_le a PInf = True"
| "np_le PInf b = False"
| "np_le a NInf = False"
| "np_le (Fin a) (Fin b) = (a \<le> b)"

definition np_lt :: "npfloat \<Rightarrow> npfloat \<Rightarrow> bool" where
  "np_lt a b = (np_le a b \<and> a \<noteq> b)"

definition np_min :: "npfloat \<Rightarrow> npfloat \<Rightarrow> npfloat" where
  "np_min a b = (if np_le a b then a else b)"

definition np_max :: "npfloat \<Rightarrow> npfloat \<Rightarrow> npfloat" where
  "np_max a b = (if np_le a b then b else a)"

text \<open>
  \<^verbatim>\<open>numpy.nanmin\<close> and \<^verbatim>\<open>numpy.nanmax\<close> of a one-dimensional array: a \<^verbatim>\<open>ValueError\<close> on
  an empty array, \<open>nan\<close> (with a warning) when every value is \<open>nan\<close>, and otherwise
  the least and the greatest of the values that are not \<open>nan\<close>.
\<close>

definition nanmin :: "npfloat list \<Rightarrow> error + npfloat" where
  "nanmin y =
     (if y = [] then Inl ValueError
      else case filter (\<lambda>v. v \<noteq> NaN) y of
             [] \<Rightarrow> Inr NaN
           | v # vs \<Rightarrow> Inr (fold np_min vs v))"

definition nanmax :: "npfloat list \<Rightarrow> error + npfloat" where
  "nanmax y =
     (if y = [] then Inl ValueError
      else case filter (\<lambda>v. v \<noteq> NaN) y of
             [] \<Rightarrow> Inr NaN
           | v # vs \<Rightarrow> Inr (fold np_max vs v))"

text \<open>The slice \<^verbatim>\<open>d[::k]\<close> for a step \<open>k\<close> that is at least one.\<close>

fun every_nth :: "nat \<Rightarrow> 'a list \<Rightarrow> 'a list" where
  "every_nth k [] = []"
| "every_nth k (x # xs) = x # every_nth k (drop (k - 1) xs)"

text \<open>The size \<^verbatim>\<open>(140, 70)\<close> of the preview: width and height.\<close>

definition pix_size :: "nat \<times> nat" where
  "pix_size = (140, 70)"

text \<open>The data points of the preview: all of them, or every \<^verbatim>\<open>intvl\<close>-th one.\<close>

definition downsample :: "'a list \<Rightarrow> 'a list" where
  "downsample d =
     (if length d < snd pix_size then d
      else (let intvl = length d div snd pix_size + 1 in every_nth intvl d))"

text \<open>\<^verbatim>\<open>minval, maxval = N.nanmin(y), N.nanmax(y)\<close> on the data points.\<close>

definition preview_minmax :: "npfloat list \<Rightarrow> error + npfloat \<times> npfloat" where
  "preview_minmax d =
     (case nanmin (downsample d) of
        Inl e \<Rightarrow> Inl e
      | Inr minval \<Rightarrow>
          (case nanmax (downsample d) of
             Inl e \<Rightarrow> Inl e
           | Inr maxval \<Rightarrow> Inr (minval, maxval)))"

text \<open>
  What is drawn on the pixmap: the polyline of the data points and the two lines of
  the axes, each line from one point to another.
\<close>

record pixmap =
  polyline :: "(npfloat \<times> npfloat) list"
  drawn_lines :: "((npfloat \<times> npfloat) \<times> (npfloat \<times> npfloat)) list"

text \<open>
  The body of the \<^verbatim>\<open>try\<close> statement of \<^verbatim>\<open>getPreviewPixmap\<close>. The points are the pairs of
  the index and the normalised value of each data point; \<^verbatim>\<open>1./len(x)\<close> is a division
  of Python floats and raises \<^verbatim>\<open>ZeroDivisionError\<close> when no point is finite.
\<close>

definition preview_body :: "npfloat list \<Rightarrow> error + pixmap" where
  "preview_body d =
     (let h = Fin (real (snd pix_size)); w = real (fst pix_size); y = downsample d in
      case preview_minmax d of
        Inl e \<Rightarrow> Inl e
      | Inr (minval, maxval) \<Rightarrow>
          (let ynorm = map (\<lambda>v. np_mul (np_div (np_sub v minval) (np_sub maxval minval)) h) y;
               pts = filter (\<lambda>p. isfinite (snd p)) (zip [0..<length y] ynorm)
           in if length pts = 0 then Inl ZeroDivisionError
              else
                (let xs = map (\<lambda>p. Fin (real (fst p) * (1 / real (length pts)) * w)) pts;
                     poly = zip xs (map (\<lambda>p. np_sub h (snd p)) pts)
                 in case xs of
                      [] \<Rightarrow> Inl IndexError
                    | x0 # rest \<Rightarrow>
                        (let xlast = last xs;
                             axis =
                               (if np_le minval (Fin 0) \<and> np_lt (Fin 0) maxval
                                then
                                  (let y0 = np_sub h
                                         (np_mul (np_div (np_sub (Fin 0) minval)
                                                     (np_sub maxval minval)) h)
                                   in ((x0, y0), (xlast, y0)))
                                else ((x0, h), (xlast, h)))
                         in Inr \<lparr>polyline = poly,
                                 drawn_lines = [axis, ((x0, Fin 0), (x0, h))]\<rparr>))))"

text \<open>
  \<^verbatim>\<open>getPreviewPixmap\<close>: \<open>None\<close> for a dataset that is not one-dimensional and numeric;
  \<^verbatim>\<open>ValueError\<close> and \<^verbatim>\<open>ZeroDivisionError\<close> of the body are caught and give \<open>None\<close>, any
  other exception is passed on.
\<close>

definition getPreviewPixmap :: "dataset \<Rightarrow> error + pixmap option" where
  "getPreviewPixmap ds =
     (if dimensions ds \<noteq> 1 \<or> ds_datatype ds \<noteq> ''numeric'' then Inr None
      else case preview_body (ds_data ds) of
             Inl ValueError \<Rightarrow> Inr None
           | Inl ZeroDivisionError \<Rightarrow> Inr None
           | Inl e \<Rightarrow> Inl e
           | Inr pix \<Rightarrow> Inr (Some pix))"


subsection \<open>Lookups of a dataset node\<close>

text \<open>
  \<^verbatim>\<open>DatasetNode.dataset\<close>: the dataset named by the first column of the node in the
  current document, or \<open>None\<close> when the lookup raises \<^verbatim>\<open>KeyError\<close>.
\<close>

definition DatasetNode_dataset :: "document \<Rightarrow> node \<Rightarrow> error + dataset option" where
  "DatasetNode_dataset d nd =
     (case data nd of
        [] \<Rightarrow> Inl IndexError
      | name # rest \<Rightarrow>
          (case doc_lookup d name of
             Inl KeyError \<Rightarrow> Inr None
           | Inl e \<Rightarrow> Inl e
           | Inr ds \<Rightarrow> Inr (Some ds)))"

text \<open>Indexing a tuple: a negative index counts from the end.\<close>

definition py_index :: "'a list \<Rightarrow> int \<Rightarrow> error + 'a" where
  "py_index xs i =
     (if 0 \<le> i \<and> i < int (length xs) then Inr (xs ! nat i)
      else if i < 0 \<and> - int (length xs) \<le> i then Inr (xs ! nat (int (length xs) + i))
      else Inl IndexError)"

fun join :: "string \<Rightarrow> string list \<Rightarrow> string" where
  "join sep [] = []"
| "join sep [x] = x"
| "join sep (x # y # ys) = x @ sep @ join sep (y # ys)"

definition newline_to_br :: "string \<Rightarrow> string" where
  "newline_to_br text = concat (map (\<lambda>c. if c = CHR 0x0A then ''<br>'' else [c]) text)"

text \<open>
  \<^verbatim>\<open>DatasetNode.toolTip\<close>. Its parameters are the functions of other modules that it
  calls: \<open>tags_text s\<close> is \<^verbatim>\<open>_('Tags: %s') % s\<close>, \<open>fill\<close> is \<^verbatim>\<open>textwrap.fill\<close> and
  \<open>pixmapAsHtml\<close> is \<^verbatim>\<open>utils.pixmapAsHtml\<close>.
\<close>

definition DatasetNode_toolTip ::
  "(string \<Rightarrow> string) \<Rightarrow> (string \<Rightarrow> nat \<Rightarrow> string) \<Rightarrow> (pixmap \<Rightarrow> string) \<Rightarrow>
   document \<Rightarrow> node \<Rightarrow> int \<Rightarrow> error + string option" where
  "DatasetNode_toolTip tags_text fill pixmapAsHtml d nd column =
     (case data nd of
        [] \<Rightarrow> Inl IndexError
      | name # rest \<Rightarrow>
          (case doc_lookup d name of
             Inl KeyError \<Rightarrow> Inr None
           | Inl e \<Rightarrow> Inl e
           | Inr ds \<Rightarrow>
               (case py_index (cols nd) column of
                  Inl e \<Rightarrow> Inl e
                | Inr c \<Rightarrow>
                    if c = ''name'' then
                      (let text0 = (case description ds of None \<Rightarrow> [] | Some t \<Rightarrow> t);
                           text1 =
                             (if tags ds \<noteq> {||}
                              then text0 @ [CHR 0x0A, CHR 0x0A]
                                   @ tags_text (join '' '' (sorted_list_of_fset (tags ds)))
                              else text0)
                       in Inr (Some (fill text1 40)))
                    else if c = ''size'' \<or> (c = ''type'' \<and> ''size'' \<notin> set (cols nd)) then
                      (case getPreviewPixmap ds of
                         Inl e \<Rightarrow> Inl e
                       | Inr None \<Rightarrow> Inr (Some (userPreview ds))
                       | Inr (Some pix) \<Rightarrow>
                           Inr (Some (''<html>'' @ newline_to_br (userPreview ds) @ ''<br>''
                                      @ pixmapAsHtml pix @ ''</html>'')))
                    else if c = ''linkfile'' \<or> c = ''type'' then
                      Inr (Some (fill (linkedInformation ds) 40))
                    else Inr None)))"

subsection \<open>Renaming a dataset\<close>

datatype operation = OperationDatasetRename string string

datatype signal = DataChanged

text \<open>
  \<^verbatim>\<open>DatasetRelationModel.setData\<close>. The index is given by the node that it refers to.
  \<^verbatim>\<open>utils.validateDatasetName\<close> and \<^verbatim>\<open>doc.applyOperation\<close> belong to other modules and
  are parameters. The result is the model after the call, the signals that were
  emitted and the returned value.
\<close>

definition setData ::
  "(string \<Rightarrow> bool) \<Rightarrow> (document \<Rightarrow> operation \<Rightarrow> document) \<Rightarrow>
   model \<Rightarrow> node \<Rightarrow> string \<Rightarrow> error + model \<times> signal list \<times> bool" where
  "setData validateDatasetName applyOperation self dsnode newname =
     (if \<not> validateDatasetName newname \<or> newname \<in> set (map fst (doc_data (doc self)))
      then Inr (self, [], False)
      else case data dsnode of
             [] \<Rightarrow> Inl IndexError
           | oldname # rest \<Rightarrow>
               Inr (self\<lparr>doc := applyOperation (doc self) (OperationDatasetRename oldname newname)\<rparr>,
                    [DataChanged], True))"

subsection \<open>Synchronising the displayed tree\<close>

text \<open>
  Modelled from the spec: \<^verbatim>\<open>TreeModel.syncTree\<close> of \<^verbatim>\<open>veusz/utils/treemodel.py\<close>, which is
  not among the sources, on the tree nodes of the spec. A node has one of two kinds,
  a tuple of column values, child nodes, and a handle to which the view attaches its
  display state (expansion, selection). The identity of a group node is its tuple of
  labels, the identity of a dataset node is the dataset name, its first column.
\<close>

datatype kind = GroupNode | DatasetLeaf

datatype 'h treenode =
  TreeNode (handle: 'h) (kind: kind) (columns: "string list") (children: "'h treenode list")

definition identity :: "'h treenode \<Rightarrow> kind \<times> string list" where
  "identity n = (case kind n of GroupNode \<Rightarrow> (GroupNode, columns n)
                 | DatasetLeaf \<Rightarrow> (DatasetLeaf, take 1 (columns n)))"

text \<open>
  The spec: pair the children of the old and the new node by identity; a matched pair
  is synchronised recursively and keeps the handle of the old node with the data of
  the new one; a new child without a match is inserted as it is; an old child without
  a match is removed; the order is that of the new tree.
\<close>

fun syncTree :: "'h treenode \<Rightarrow> 'h treenode \<Rightarrow> 'h treenode" where
  "syncTree old (TreeNode h k cs ch) =
     TreeNode (handle old) k cs
       (map (\<lambda>c. case List.find (\<lambda>o'. identity o' = identity c) (children old) of
                    None \<Rightarrow> c
                  | Some o' \<Rightarrow> syncTree o' c) ch)"

text \<open>A tree of the browser as a tree of the spec, without display state.\<close>

fun as_treenode :: "node \<Rightarrow> unit treenode" where
  "as_treenode (TMNode d ch) = TreeNode () GroupNode d (map as_treenode ch)"
| "as_treenode (FilenameNode d ch) = TreeNode () GroupNode d (map as_treenode ch)"
| "as_treenode (DatasetNode d c ch) = TreeNode () DatasetLeaf d (map as_treenode ch)"

text \<open>Siblings have distinct identities, at every level of the tree.\<close>

fun unique_ids :: "'h treenode \<Rightarrow> bool" where
  "unique_ids (TreeNode h k cs ch) =
     (distinct (map identity ch) \<and> list_all unique_ids ch)"


subsection \<open>Concrete inputs\<close>

text \<open>A dataset on which the theorems below are instantiated.\<close>

definition ds0 :: dataset where
  "ds0 = \<lparr>dimensions = 1, ds_datatype = ''numeric'', dstype = ''1D'', ds_data = [],
       tags = {||}, linked = None, userSize = ''0'', description = None,
       userPreview = [], linkedInformation = []\<rparr>"


text \<open>
  A document with three datasets, of which \<open>zz\<close> is two-dimensional and \<open>a\<close> carries
  two tags, and a model that shows one-dimensional datasets only.
\<close>

definition doc0 :: document where
  "doc0 = \<lparr>doc_data = [(''b'', ds0), (''zz'', ds0\<lparr>dimensions := 2\<rparr>),
                        (''a'', ds0\<lparr>tags := {|''raw'', ''cal''|}\<rparr>)]\<rparr>"

definition model0 :: model where
  "model0 = \<lparr>doc = doc0, grouping = ''none'', filter_text = [], readonly = False,
            filterdims = Some {1}, filterdtype = None\<rparr>"


subsection \<open>The grouped tree in closed form\<close>

text \<open>
  What \<^verbatim>\<open>makeGrpTree\<close> is proved to build from the items \<open>kept\<close> that the filter keeps:
  one group node for each group of a kept item, in ascending order of the groups, and
  under a group node the nodes of the kept items of that group, in ascending order of
  the dataset names.
\<close>

definition group_node ::
  "nodeclass \<Rightarrow> string list \<Rightarrow> (dataset \<Rightarrow> string list) \<Rightarrow> (string \<times> dataset) list \<Rightarrow>
   string \<Rightarrow> node" where
  "group_node cls colitems grouper kept grp =
     set_childnodes (new_node cls [grp])
       (map (dataset_node colitems)
          (sort_key fst (filter (\<lambda>item. grp \<in> set (grouper (snd item))) kept)))"

definition grouped_tree ::
  "string list \<Rightarrow> string list \<Rightarrow> (dataset \<Rightarrow> string list) \<Rightarrow> nodeclass \<Rightarrow>
   (string \<times> dataset) list \<Rightarrow> node" where
  "grouped_tree coltitles colitems grouper cls kept =
     TMNode coltitles
       (map (group_node cls colitems grouper kept)
          (sort (remdups (concat (map (\<lambda>item. grouper (snd item)) kept)))))"

text \<open>A node is the dataset node of the dataset \<open>name\<close>.\<close>

definition named :: "string \<Rightarrow> node \<Rightarrow> bool" where
  "named name c = (is_DatasetNode c \<and> data c \<noteq> [] \<and> hd (data c) = name)"


text \<open>
  A model in grouping mode \<open>tags\<close> with the filter text \<open>data\<close>, on a document whose
  only dataset \<open>x\<close> is linked to the file \<^verbatim>\<open>/data/run.csv\<close>.
\<close>

definition model1 :: model where
  "model1 = \<lparr>doc = \<lparr>doc_data = [(''x'', ds0\<lparr>linked := Some ''/data/run.csv''\<rparr>)]\<rparr>,
            grouping = ''tags'', filter_text = ''data'', readonly = False,
            filterdims = None, filterdtype = None\<rparr>"


section \<open>Properties\<close>

subsection \<open>The filter\<close>

lemma find_from_bounds: "find_from i t s = - 1 \<or> i \<le> find_from i t s"
proof (induction t arbitrary: i)
  case Nil
  then show ?case by simp
next
  case (Cons c t)
  have "find_from (i + 1) t s = - 1 \<or> i + 1 \<le> find_from (i + 1) t s"
    by (rule Cons.IH)
  then show ?case by auto
qed

lemma find_from_sublist: "0 \<le> i \<Longrightarrow> (0 \<le> find_from i t s) = sublist s t"
proof (induction t arbitrary: i)
  case Nil
  then show ?case by simp
next
  case (Cons c t)
  from Cons.prems have "0 \<le> i + 1" by simp
  then have IH: "(0 \<le> find_from (i + 1) t s) = sublist s t" by (rule Cons.IH)
  show ?case
  proof (cases "prefix s (c # t)")
    case True
    then show ?thesis using Cons.prems by simp
  next
    case False
    then show ?thesis using IH by (simp add: sublist_Cons_right)
  qed
qed

lemma str_find_sublist: "(0 \<le> str_find t s) = sublist s t"
  by (simp add: str_find_def find_from_sublist)

text \<open>
  Claim C1. \<^verbatim>\<open>datasetFilterOut\<close> keeps a dataset (returns \<open>False\<close>) if and only if its
  dimensions are in the dimension filter (when one is set), its datatype is in the
  datatype filter (when one is set), and the filter text is empty or is a contiguous,
  case-sensitive substring (\<open>sublist\<close>) of a tag of the dataset or of a column value
  of its node. In particular a dataset that passes the dimension and datatype filters
  is kept when the filter text is empty, and is kept when the filter text is one of
  its tags, whatever its node (and so its name) is.
\<close>

theorem datasetFilterOut_iff:
  "((\<not> datasetFilterOut self ds nd) =
      ((\<forall>fd. filterdims self = Some fd \<longrightarrow> dimensions ds \<in> fd) \<and>
       (\<forall>ft. filterdtype self = Some ft \<longrightarrow> ds_datatype ds \<in> ft) \<and>
       (filter_text self = [] \<or>
        (\<exists>t. t |\<in>| tags ds \<and> sublist (filter_text self) t) \<or>
        (\<exists>t \<in> set (data nd). sublist (filter_text self) t))))
   \<and> (filter_text self = [] \<and>
        (\<forall>fd. filterdims self = Some fd \<longrightarrow> dimensions ds \<in> fd) \<and>
        (\<forall>ft. filterdtype self = Some ft \<longrightarrow> ds_datatype ds \<in> ft)
        \<longrightarrow> \<not> datasetFilterOut self ds nd)
   \<and> (filter_text self |\<in>| tags ds \<and>
        (\<forall>fd. filterdims self = Some fd \<longrightarrow> dimensions ds \<in> fd) \<and>
        (\<forall>ft. filterdtype self = Some ft \<longrightarrow> ds_datatype ds \<in> ft)
        \<longrightarrow> \<not> datasetFilterOut self ds nd)"
proof -
  have main: "(\<not> datasetFilterOut self ds nd) =
      ((\<forall>fd. filterdims self = Some fd \<longrightarrow> dimensions ds \<in> fd) \<and>
       (\<forall>ft. filterdtype self = Some ft \<longrightarrow> ds_datatype ds \<in> ft) \<and>
       (filter_text self = [] \<or>
        (\<exists>t. t |\<in>| tags ds \<and> sublist (filter_text self) t) \<or>
        (\<exists>t \<in> set (data nd). sublist (filter_text self) t)))"
    by (auto simp: datasetFilterOut_def Let_def str_find_sublist list_ex_iff
        split: option.splits)
  have "sublist (filter_text self) (filter_text self)" by simp
  with main show ?thesis by blast
qed

theorem datasetFilterOut_iff_witness:
  "\<not> datasetFilterOut
      \<lparr>doc = \<lparr>doc_data = []\<rparr>, grouping = ''tags'', filter_text = ''cal'', readonly = False,
       filterdims = Some {1}, filterdtype = None\<rparr>
      \<lparr>dimensions = 1, ds_datatype = ''numeric'', dstype = ''1D'', ds_data = [],
       tags = {|''cal'', ''raw''|}, linked = None, userSize = ''0'', description = None,
       userPreview = [], linkedInformation = []\<rparr>
      (DatasetNode [''x'', ''0'', ''1D''] [''name'', ''size'', ''type''] [])"
  using datasetFilterOut_iff
    [of "\<lparr>doc = \<lparr>doc_data = []\<rparr>, grouping = ''tags'', filter_text = ''cal'', readonly = False,
       filterdims = Some {1}, filterdtype = None\<rparr>"
      "\<lparr>dimensions = 1, ds_datatype = ''numeric'', dstype = ''1D'', ds_data = [],
       tags = {|''cal'', ''raw''|}, linked = None, userSize = ''0'', description = None,
       userPreview = [], linkedInformation = []\<rparr>"
      "DatasetNode [''x'', ''0'', ''1D''] [''name'', ''size'', ''type''] []"]
  by simp

subsection \<open>The data points of the preview\<close>

lemma every_nth_eq:
  "0 < k \<Longrightarrow> every_nth k xs = map (\<lambda>i. xs ! (i * k)) [0..<(length xs + k - 1) div k]"
proof (induction k xs rule: every_nth.induct)
  case (1 k)
  then show ?case by simp
next
  case (2 k x xs)
  let ?ys = "drop (k - 1) xs"
  have cnt: "(length ?ys + k - 1) div k = length xs div k"
  proof (cases "k - 1 \<le> length xs")
    case True
    then show ?thesis using "2.prems" by simp
  next
    case False
    then show ?thesis using "2.prems" by simp
  qed
  have IH: "every_nth k ?ys = map (\<lambda>i. ?ys ! (i * k)) [0..<length xs div k]"
    using "2.IH" [OF "2.prems"] cnt by simp
  have idx: "?ys ! (i * k) = (x # xs) ! (Suc i * k)" if "i < length xs div k" for i
  proof -
    from that have "Suc i \<le> length xs div k" by simp
    then have "Suc i * k \<le> length xs div k * k" by (rule mult_le_mono1)
    also have "\<dots> \<le> length xs" by simp
    finally have "Suc i * k \<le> length xs" .
    then have "k - 1 + i * k < length xs" using "2.prems" by simp
    then have "?ys ! (i * k) = xs ! (k - 1 + i * k)" by simp
    also have "k - 1 + i * k = Suc i * k - 1" using "2.prems" by simp
    also have "xs ! (Suc i * k - 1) = (x # xs) ! (Suc i * k)"
      using "2.prems" by (simp add: nth_Cons')
    finally show ?thesis .
  qed
  have "(length (x # xs) + k - 1) div k = Suc (length xs div k)"
    using "2.prems" by simp
  then have "map (\<lambda>i. (x # xs) ! (i * k)) [0..<(length (x # xs) + k - 1) div k]
      = x # map (\<lambda>i. (x # xs) ! (Suc i * k)) [0..<length xs div k]"
    by (simp add: map_upt_Suc del: upt_Suc)
  also have "map (\<lambda>i. (x # xs) ! (Suc i * k)) [0..<length xs div k]
      = map (\<lambda>i. ?ys ! (i * k)) [0..<length xs div k]"
    using idx by simp
  finally show ?case using IH by simp
qed

text \<open>
  Claim C6. The preview is computed from all the samples of the dataset when there
  are fewer than \<open>H = 70\<close> of them (the height of the preview), and otherwise from the
  samples at the indices \<open>0\<close>, \<open>stride\<close>, \<open>2 * stride\<close>, ... below the sample count,
  where \<open>stride = n div H + 1\<close>.
\<close>

theorem downsample_stride:
  "(length d < snd pix_size \<longrightarrow> downsample d = d) \<and>
   (snd pix_size \<le> length d \<longrightarrow>
      downsample d =
        map (\<lambda>i. d ! (i * (length d div snd pix_size + 1)))
          [0..<(length d + (length d div snd pix_size + 1) - 1) div (length d div snd pix_size + 1)])
   \<and> snd pix_size = 70"
  using every_nth_eq [of "length d div snd pix_size + 1" d]
  by (simp add: downsample_def Let_def pix_size_def)

theorem downsample_stride_witness:
  "downsample (map int [0..<150]) = map (\<lambda>i. int (i * 3)) [0..<50]
   \<and> downsample [1, 2, 3 :: int] = [1, 2, 3]"
proof -
  have a: "downsample (map int [0..<150]) = map (\<lambda>i. (map int [0..<150]) ! (i * 3)) [0..<50]"
    using downsample_stride [of "map int [0..<150]"] by (simp add: pix_size_def)
  have "map (\<lambda>i. (map int [0..<150]) ! (i * 3)) [0..<50] = map (\<lambda>i. int (i * 3)) [0..<50]"
    by (rule map_cong) (simp_all del: upt_Suc)
  with a have 1: "downsample (map int [0..<150]) = map (\<lambda>i. int (i * 3)) [0..<50]" by simp
  have 2: "downsample [1, 2, 3 :: int] = [1, 2, 3]"
    using downsample_stride [of "[1, 2, 3 :: int]"] by (simp add: pix_size_def)
  from 1 2 show ?thesis by simp
qed

subsection \<open>Renaming a dataset\<close>

text \<open>
  Claim C7. When the new name fails the validation of dataset names or is already a
  key of \<^verbatim>\<open>doc.data\<close>, \<^verbatim>\<open>setData\<close> returns \<open>False\<close>, applies no operation to the document
  (the model is returned as it was) and emits no signal. When the name is valid and
  is not a key, it applies \<^verbatim>\<open>OperationDatasetRename\<close> from the name of the node to the
  new name and returns \<open>True\<close>.
\<close>

theorem setData_rename:
  "(\<not> validateDatasetName newname \<or> newname \<in> fst ` set (doc_data (doc self)) \<longrightarrow>
      setData validateDatasetName applyOperation self dsnode newname = Inr (self, [], False))
   \<and> (validateDatasetName newname \<and> newname \<notin> fst ` set (doc_data (doc self))
        \<and> data dsnode = oldname # rest \<longrightarrow>
      setData validateDatasetName applyOperation self dsnode newname =
        Inr (self\<lparr>doc := applyOperation (doc self) (OperationDatasetRename oldname newname)\<rparr>,
             [DataChanged], True))"
  by (simp add: setData_def)

theorem setData_rename_witness:
  "setData (\<lambda>n. n \<noteq> []) (\<lambda>d op. d) \<lparr>doc = \<lparr>doc_data = [(''y'', ds0)]\<rparr>, grouping = ''none'', filter_text = [], readonly = False, filterdims = None, filterdtype = None\<rparr>
     (DatasetNode [''y'', ''0''] [''name'', ''size''] []) ''y''
    = Inr (\<lparr>doc = \<lparr>doc_data = [(''y'', ds0)]\<rparr>, grouping = ''none'', filter_text = [], readonly = False, filterdims = None, filterdtype = None\<rparr>, [], False)
  \<and> setData (\<lambda>n. n \<noteq> []) (\<lambda>d op. (case op of OperationDatasetRename a b \<Rightarrow> \<lparr>doc_data = map (\<lambda>p. if fst p = a then (b, snd p) else p) (doc_data d)\<rparr>)) \<lparr>doc = \<lparr>doc_data = [(''y'', ds0)]\<rparr>, grouping = ''none'', filter_text = [], readonly = False, filterdims = None, filterdtype = None\<rparr>
     (DatasetNode [''y'', ''0''] [''name'', ''size''] []) ''z''
    = Inr (\<lparr>doc = \<lparr>doc_data = [(''z'', ds0)]\<rparr>, grouping = ''none'', filter_text = [], readonly = False, filterdims = None, filterdtype = None\<rparr>, [DataChanged], True)"
proof -
  let ?m = "\<lparr>doc = \<lparr>doc_data = [(''y'', ds0)]\<rparr>, grouping = ''none'', filter_text = [], readonly = False, filterdims = None, filterdtype = None\<rparr>"
  let ?n = "DatasetNode [''y'', ''0''] [''name'', ''size''] []"
  let ?ap = "\<lambda>d op. (case op of OperationDatasetRename a b \<Rightarrow> \<lparr>doc_data = map (\<lambda>p. if fst p = a then (b, snd p) else p) (doc_data d)\<rparr>)"
  have 1: "setData (\<lambda>n. n \<noteq> []) (\<lambda>d op. d) ?m ?n ''y'' = Inr (?m, [], False)"
    using setData_rename [of "\<lambda>n. n \<noteq> []" "''y''" ?m "\<lambda>d op. d" ?n] by simp
  have 2: "setData (\<lambda>n. n \<noteq> []) ?ap ?m ?n ''z'' = Inr (?m\<lparr>doc := ?ap (doc ?m) (OperationDatasetRename ''y'' ''z'')\<rparr>, [DataChanged], True)"
    using setData_rename [of "\<lambda>n. n \<noteq> []" "''z''" ?m ?ap ?n "''y''" "[''0'']"] by simp
  from 1 2 show ?thesis by simp
qed

subsection \<open>A node whose dataset has gone\<close>

lemma doc_lookup_missing:
  "name \<notin> fst ` set (doc_data d) \<Longrightarrow> doc_lookup d name = Inl KeyError"
  by (simp add: doc_lookup_def map_of_eq_None_iff split: option.splits)

lemma DatasetNode_init_data:
  "DatasetNode_init d0 name cs = Inr nd \<Longrightarrow>
     \<exists>rest. data nd = name # rest \<and> cols nd = cs \<and> is_DatasetNode nd"
  by (auto simp: DatasetNode_init_def split: sum.splits list.splits if_splits)

text \<open>
  Claim C8. For a dataset node that was made for the dataset \<open>name\<close> of an earlier
  document, and a document in which \<open>name\<close> is no longer a key of \<^verbatim>\<open>doc.data\<close>, the
  methods \<^verbatim>\<open>dataset()\<close> and \<^verbatim>\<open>toolTip(column)\<close> return \<open>None\<close> and raise nothing, for
  every column.
\<close>

theorem missing_dataset_lookup:
  assumes "DatasetNode_init d0 name cs = Inr nd"
    and "name \<notin> fst ` set (doc_data d)"
  shows "DatasetNode_dataset d nd = Inr None
    \<and> DatasetNode_toolTip tags_text fill pixmapAsHtml d nd column = Inr None"
proof -
  from assms(1) obtain rest where "data nd = name # rest"
    using DatasetNode_init_data by blast
  moreover from assms(2) have "doc_lookup d name = Inl KeyError"
    by (rule doc_lookup_missing)
  ultimately show ?thesis
    by (simp add: DatasetNode_dataset_def DatasetNode_toolTip_def)
qed

theorem missing_dataset_lookup_witness:
  "DatasetNode_init \<lparr>doc_data = [(''x'', ds0)]\<rparr> ''x'' [''name'', ''size''] = Inr (DatasetNode [''x'', ''0''] [''name'', ''size''] [])
   \<and> ''x'' \<notin> fst ` set (doc_data \<lparr>doc_data = [(''y'', ds0)]\<rparr>)
   \<and> DatasetNode_dataset \<lparr>doc_data = [(''y'', ds0)]\<rparr> (DatasetNode [''x'', ''0''] [''name'', ''size''] []) = Inr None
   \<and> DatasetNode_toolTip id (\<lambda>s n. s) (\<lambda>p. []) \<lparr>doc_data = [(''y'', ds0)]\<rparr> (DatasetNode [''x'', ''0''] [''name'', ''size''] []) 1 = Inr None"
proof -
  have 1: "DatasetNode_init \<lparr>doc_data = [(''x'', ds0)]\<rparr> ''x'' [''name'', ''size'']
      = Inr (DatasetNode [''x'', ''0''] [''name'', ''size''] [])"
    by (simp add: DatasetNode_init_def doc_lookup_def ds0_def)
  have 2: "''x'' \<notin> fst ` set (doc_data \<lparr>doc_data = [(''y'', ds0)]\<rparr>)" by simp
  from missing_dataset_lookup [OF 1 2, of id "\<lambda>s n. s" "\<lambda>p. []" 1] 1 2 show ?thesis by simp
qed

subsection \<open>The preview\<close>

lemma set_every_nth: "set (every_nth k xs) \<subseteq> set xs"
proof (induction k xs rule: every_nth.induct)
  case (1 k)
  then show ?case by simp
next
  case (2 k x xs)
  have "set (drop (k - 1) xs) \<subseteq> set xs" by (rule set_drop_subset)
  with "2.IH" show ?case by auto
qed

lemma every_nth_Nil_iff: "(every_nth k xs = []) = (xs = [])"
  by (cases xs) simp_all

lemma set_downsample: "set (downsample d) \<subseteq> set d"
  using set_every_nth [of _ d] by (simp add: downsample_def Let_def)

lemma ball_downsample: "\<forall>v\<in>set d. P v \<Longrightarrow> \<forall>v\<in>set (downsample d). P v"
  using set_downsample [of d] by (meson subsetD)

lemma ball_const: "\<forall>v\<in>A. v = c \<Longrightarrow> P c \<Longrightarrow> \<forall>v\<in>A. P v"
  by auto

lemma downsample_Nil_iff: "(downsample d = []) = (d = [])"
  by (simp add: downsample_def Let_def every_nth_Nil_iff)

lemma np_le_refl: "a \<noteq> NaN \<Longrightarrow> np_le a a"
  by (cases a) simp_all

lemma np_le_total: "a \<noteq> NaN \<Longrightarrow> b \<noteq> NaN \<Longrightarrow> np_le a b \<or> np_le b a"
  by (cases a; cases b) auto

lemma np_le_trans: "np_le a b \<Longrightarrow> np_le b c \<Longrightarrow> np_le a c"
  by (cases a; cases b; cases c) auto

lemma np_le_antisym: "np_le a b \<Longrightarrow> np_le b a \<Longrightarrow> a = b"
  by (cases a; cases b) auto

lemma np_le_not_NaN: "np_le a b \<Longrightarrow> a \<noteq> NaN \<and> b \<noteq> NaN"
  by (cases a; cases b) auto

lemma fold_np_min:
  "v \<noteq> NaN \<Longrightarrow> \<forall>u\<in>set vs. u \<noteq> NaN \<Longrightarrow>
     fold np_min vs v \<in> set (v # vs) \<and> (\<forall>u\<in>set (v # vs). np_le (fold np_min vs v) u)"
proof (induction vs arbitrary: v)
  case Nil
  then show ?case by (simp add: np_le_refl)
next
  case (Cons w vs)
  have w: "w \<noteq> NaN" and vs: "\<forall>u\<in>set vs. u \<noteq> NaN" using Cons.prems(2) by simp_all
  have m: "np_min w v \<noteq> NaN" using Cons.prems(1) w by (simp add: np_min_def)
  have IH: "fold np_min vs (np_min w v) \<in> set (np_min w v # vs)
      \<and> (\<forall>u\<in>set (np_min w v # vs). np_le (fold np_min vs (np_min w v)) u)"
    using Cons.IH [OF m vs] .
  have le: "np_le (np_min w v) v \<and> np_le (np_min w v) w"
    using np_le_total [OF Cons.prems(1) w] Cons.prems(1) w
    by (auto simp: np_min_def np_le_refl)
  have mem: "np_min w v = v \<or> np_min w v = w" by (simp add: np_min_def)
  from IH le mem show ?case
    by (auto intro: np_le_trans)
qed

lemma fold_np_max:
  "v \<noteq> NaN \<Longrightarrow> \<forall>u\<in>set vs. u \<noteq> NaN \<Longrightarrow>
     fold np_max vs v \<in> set (v # vs) \<and> (\<forall>u\<in>set (v # vs). np_le u (fold np_max vs v))"
proof (induction vs arbitrary: v)
  case Nil
  then show ?case by (simp add: np_le_refl)
next
  case (Cons w vs)
  have w: "w \<noteq> NaN" and vs: "\<forall>u\<in>set vs. u \<noteq> NaN" using Cons.prems(2) by simp_all
  have m: "np_max w v \<noteq> NaN" using Cons.prems(1) w by (simp add: np_max_def)
  have IH: "fold np_max vs (np_max w v) \<in> set (np_max w v # vs)
      \<and> (\<forall>u\<in>set (np_max w v # vs). np_le u (fold np_max vs (np_max w v)))"
    using Cons.IH [OF m vs] .
  have le: "np_le v (np_max w v) \<and> np_le w (np_max w v)"
    using np_le_total [OF Cons.prems(1) w] Cons.prems(1) w
    by (auto simp: np_max_def np_le_refl)
  have mem: "np_max w v = v \<or> np_max w v = w" by (simp add: np_max_def)
  from IH le mem show ?case
    by (auto intro: np_le_trans)
qed

lemma nanmin_cases:
  assumes "y \<noteq> []"
  shows "(nanmin y = Inr NaN \<and> (\<forall>v\<in>set y. v = NaN))
       \<or> (\<exists>m. nanmin y = Inr m \<and> m \<in> set y \<and> m \<noteq> NaN
              \<and> (\<forall>v\<in>set y. v \<noteq> NaN \<longrightarrow> np_le m v))"
proof (cases "filter (\<lambda>v. v \<noteq> NaN) y")
  case Nil
  then have "\<forall>v\<in>set y. v = NaN" by (simp add: filter_empty_conv)
  with Nil assms show ?thesis by (simp add: nanmin_def)
next
  case (Cons v vs)
  have set_eq: "set (v # vs) = {u \<in> set y. u \<noteq> NaN}"
    using Cons [symmetric] by simp
  then have v: "v \<noteq> NaN" and vs: "\<forall>u\<in>set vs. u \<noteq> NaN" by auto
  from fold_np_min [OF v vs] set_eq Cons assms show ?thesis
    by (auto simp: nanmin_def)
qed

lemma nanmax_cases:
  assumes "y \<noteq> []"
  shows "(nanmax y = Inr NaN \<and> (\<forall>v\<in>set y. v = NaN))
       \<or> (\<exists>m. nanmax y = Inr m \<and> m \<in> set y \<and> m \<noteq> NaN
              \<and> (\<forall>v\<in>set y. v \<noteq> NaN \<longrightarrow> np_le v m))"
proof (cases "filter (\<lambda>v. v \<noteq> NaN) y")
  case Nil
  then have "\<forall>v\<in>set y. v = NaN" by (simp add: filter_empty_conv)
  with Nil assms show ?thesis by (simp add: nanmax_def)
next
  case (Cons v vs)
  have set_eq: "set (v # vs) = {u \<in> set y. u \<noteq> NaN}"
    using Cons [symmetric] by simp
  then have v: "v \<noteq> NaN" and vs: "\<forall>u\<in>set vs. u \<noteq> NaN" by auto
  from fold_np_max [OF v vs] set_eq Cons assms show ?thesis
    by (auto simp: nanmax_def)
qed

lemma zip_snd_in: "p \<in> set (zip xs ys) \<Longrightarrow> snd p \<in> set ys"
  by (cases p) (auto dest: set_zip_rightD)

lemma norm_nonfinite:
  "\<not> isfinite v \<Longrightarrow> \<not> isfinite (np_mul (np_div (np_sub v a) b) (Fin c))"
  by (cases v; cases a; cases b) (simp_all add: np_sub_def)

lemma norm_equal:
  "v = m \<or> v = NaN \<Longrightarrow> \<not> isfinite (np_mul (np_div (np_sub v m) (np_sub m m)) (Fin c))"
  by (cases m; cases v) (simp_all add: np_sub_def)

lemma preview_minmax_Nil: "preview_minmax [] = Inl ValueError"
  by (simp add: preview_minmax_def downsample_def nanmin_def)

lemma preview_minmax_Inr:
  "preview_minmax d = Inr (a, b) \<Longrightarrow>
     downsample d \<noteq> [] \<and> nanmin (downsample d) = Inr a \<and> nanmax (downsample d) = Inr b"
  by (auto simp: preview_minmax_def nanmin_def split: sum.splits if_splits)

lemma preview_minmax_defined:
  "d \<noteq> [] \<Longrightarrow> \<exists>a b. preview_minmax d = Inr (a, b)"
  by (simp add: preview_minmax_def nanmin_def nanmax_def downsample_Nil_iff
      split: list.splits)

lemma preview_body_no_points:
  assumes mm: "preview_minmax d = Inr (a, b)"
    and nf: "\<forall>v\<in>set (downsample d).
        \<not> isfinite (np_mul (np_div (np_sub v a) (np_sub b a)) (Fin (real (snd pix_size))))"
  shows "preview_body d = Inl ZeroDivisionError"
proof -
  let ?ynorm = "map (\<lambda>v. np_mul (np_div (np_sub v a) (np_sub b a)) (Fin (real (snd pix_size))))
      (downsample d)"
  have "filter (\<lambda>p. isfinite (snd p)) (zip [0..<length (downsample d)] ?ynorm) = []"
  proof -
    have "\<not> isfinite (snd p)" if "p \<in> set (zip [0..<length (downsample d)] ?ynorm)" for p
    proof -
      from that have "snd p \<in> set ?ynorm" by (rule zip_snd_in)
      with nf show ?thesis by auto
    qed
    then show ?thesis by (simp add: filter_empty_conv)
  qed
  with mm show ?thesis by (simp add: preview_body_def Let_def)
qed

lemma preview_body_Nil: "preview_body [] = Inl ValueError"
  by (simp add: preview_body_def preview_minmax_Nil Let_def)

lemma preview_body_nonfinite:
  assumes "d \<noteq> []" and "\<forall>v\<in>set (downsample d). \<not> isfinite v"
  shows "preview_body d = Inl ZeroDivisionError"
proof -
  from assms(1) obtain a b where mm: "preview_minmax d = Inr (a, b)"
    using preview_minmax_defined by blast
  show ?thesis
    by (rule preview_body_no_points [OF mm]) (simp add: assms(2) norm_nonfinite)
qed

lemma preview_body_min_eq_max:
  assumes mm: "preview_minmax d = Inr (m, m)"
  shows "preview_body d = Inl ZeroDivisionError"
proof -
  let ?y = "downsample d"
  from preview_minmax_Inr [OF mm]
  have ne: "?y \<noteq> []" and mn: "nanmin ?y = Inr m" and mx: "nanmax ?y = Inr m" by simp_all
  have all: "v = m \<or> v = NaN" if v: "v \<in> set ?y" for v
  proof (cases "v = NaN")
    case True
    then show ?thesis by simp
  next
    case False
    from nanmin_cases [OF ne] mn v False have "np_le m v" by auto
    moreover from nanmax_cases [OF ne] mx v False have "np_le v m" by auto
    ultimately show ?thesis by (simp add: np_le_antisym)
  qed
  show ?thesis
    by (rule preview_body_no_points [OF mm]) (simp add: all norm_equal)
qed

lemma preview_body_points:
  assumes mm: "preview_minmax d = Inr (a, b)"
    and ne: "filter (\<lambda>p. isfinite (snd p))
        (zip [0..<length (downsample d)]
          (map (\<lambda>v. np_mul (np_div (np_sub v a) (np_sub b a)) (Fin (real (snd pix_size))))
            (downsample d))) \<noteq> []"
  shows "\<exists>pix. preview_body d = Inr pix"
proof -
  define pts where "pts = filter (\<lambda>p. isfinite (snd p))
        (zip [0..<length (downsample d)]
          (map (\<lambda>v. np_mul (np_div (np_sub v a) (np_sub b a)) (Fin (real (snd pix_size))))
            (downsample d)))"
  from ne obtain p ps where pts: "pts = p # ps" unfolding pts_def [symmetric] by (cases pts) auto
  have "preview_body d =
     (if length pts = 0 then Inl ZeroDivisionError
      else
        (let h = Fin (real (snd pix_size));
             xs = map (\<lambda>p. Fin (real (fst p) * (1 / real (length pts)) * real (fst pix_size))) pts;
             poly = zip xs (map (\<lambda>p. np_sub h (snd p)) pts)
         in case xs of
              [] \<Rightarrow> Inl IndexError
            | x0 # rest \<Rightarrow>
                (let xlast = last xs;
                     axis =
                       (if np_le a (Fin 0) \<and> np_lt (Fin 0) b
                        then
                          (let y0 = np_sub h
                                 (np_mul (np_div (np_sub (Fin 0) a) (np_sub b a)) h)
                           in ((x0, y0), (xlast, y0)))
                        else ((x0, h), (xlast, h)))
                 in Inr \<lparr>polyline = poly,
                         drawn_lines = [axis, ((x0, Fin 0), (x0, h))]\<rparr>)))"
    unfolding preview_body_def pts_def Let_def mm by simp
  then show ?thesis unfolding pts Let_def by simp
qed

lemma preview_body_draws:
  assumes fin: "\<forall>v\<in>set d. isfinite v"
    and u: "u \<in> set (downsample d)" and w: "w \<in> set (downsample d)" and uw: "u \<noteq> w"
  shows "\<exists>pix. preview_body d = Inr pix"
proof -
  let ?y = "downsample d"
  have ne: "?y \<noteq> []" using u by (cases ?y) simp_all
  have finy: "\<forall>v\<in>set ?y. isfinite v" using fin by (rule ball_downsample)
  have nn: "\<forall>v\<in>set ?y. v \<noteq> NaN"
  proof
    fix v assume "v \<in> set ?y"
    with finy have "isfinite v" by blast
    then show "v \<noteq> NaN" by (cases v) simp_all
  qed
  have u_nn: "u \<noteq> NaN" using nn u by blast
  have "\<not> (nanmin ?y = Inr NaN \<and> (\<forall>v\<in>set ?y. v = NaN))" using u u_nn by blast
  with nanmin_cases [OF ne] obtain m where
    mn: "nanmin ?y = Inr m" and m_in: "m \<in> set ?y"
    and m_le': "\<forall>v\<in>set ?y. v \<noteq> NaN \<longrightarrow> np_le m v"
    by blast
  have m_le: "\<forall>v\<in>set ?y. np_le m v" using m_le' nn by blast
  have "\<not> (nanmax ?y = Inr NaN \<and> (\<forall>v\<in>set ?y. v = NaN))" using u u_nn by blast
  with nanmax_cases [OF ne] obtain M where
    mx: "nanmax ?y = Inr M" and M_in: "M \<in> set ?y"
    and M_ge': "\<forall>v\<in>set ?y. v \<noteq> NaN \<longrightarrow> np_le v M"
    by blast
  have M_ge: "\<forall>v\<in>set ?y. np_le v M" using M_ge' nn by blast
  have "isfinite m" using m_in finy by blast
  then obtain a where a: "m = Fin a" by (cases m) simp_all
  have "isfinite M" using M_in finy by blast
  then obtain b where b: "M = Fin b" by (cases M) simp_all
  have "m \<noteq> M"
  proof
    assume "m = M"
    have "u = m" by (rule np_le_antisym) (use \<open>m = M\<close> m_le M_ge u in simp_all)
    moreover have "w = m" by (rule np_le_antisym) (use \<open>m = M\<close> m_le M_ge w in simp_all)
    ultimately show False using uw by simp
  qed
  moreover have "np_le m M" using m_le M_in by simp
  ultimately have ab: "a < b" using a b by simp
  have mm: "preview_minmax d = Inr (Fin a, Fin b)"
    using mn mx a b by (simp add: preview_minmax_def)
  let ?ynorm = "map (\<lambda>v. np_mul (np_div (np_sub v (Fin a)) (np_sub (Fin b) (Fin a)))
      (Fin (real (snd pix_size)))) ?y"
  let ?pts = "filter (\<lambda>p. isfinite (snd p)) (zip [0..<length ?y] ?ynorm)"
  have norm_fin: "isfinite (np_mul (np_div (np_sub v (Fin a)) (np_sub (Fin b) (Fin a)))
      (Fin (real (snd pix_size))))" if "isfinite v" for v
    using that ab by (cases v) (simp_all add: np_sub_def)
  have "\<forall>p\<in>set (zip [0..<length ?y] ?ynorm). isfinite (snd p)"
  proof
    fix p assume "p \<in> set (zip [0..<length ?y] ?ynorm)"
    then have "snd p \<in> set ?ynorm" by (rule zip_snd_in)
    then obtain v where "v \<in> set ?y" and
      "snd p = np_mul (np_div (np_sub v (Fin a)) (np_sub (Fin b) (Fin a))) (Fin (real (snd pix_size)))"
      by (auto simp only: set_map)
    then show "isfinite (snd p)" using finy norm_fin by simp
  qed
  then have "?pts = zip [0..<length ?y] ?ynorm" by (simp only: filter_id_conv)
  then have "length ?pts = length ?y" by simp
  then have pts_ne: "?pts \<noteq> []" using ne by (metis length_0_conv)
  from mm pts_ne show ?thesis by (rule preview_body_points)
qed

lemma getPreviewPixmap_caught:
  "dimensions ds = 1 \<Longrightarrow> ds_datatype ds = ''numeric'' \<Longrightarrow>
   preview_body (ds_data ds) = Inl ValueError \<or> preview_body (ds_data ds) = Inl ZeroDivisionError \<Longrightarrow>
   getPreviewPixmap ds = Inr None"
  by (auto simp: getPreviewPixmap_def)

lemma preview_body_all_equal:
  assumes ne: "d \<noteq> []" and eq: "\<forall>v\<in>set d. v = c"
  shows "preview_body d = Inl ZeroDivisionError"
proof (cases "isfinite c")
  case False
  have "\<forall>v\<in>set d. \<not> isfinite v" using eq False by (rule ball_const)
  then have "\<forall>v\<in>set (downsample d). \<not> isfinite v" by (rule ball_downsample)
  with ne show ?thesis by (rule preview_body_nonfinite)
next
  case True
  then have c: "c \<noteq> NaN" by (cases c) simp_all
  let ?y = "downsample d"
  have yne: "?y \<noteq> []" using ne by (simp add: downsample_Nil_iff)
  have yeq: "\<forall>v\<in>set ?y. v = c" using eq by (rule ball_downsample)
  from yne obtain v0 where v0: "v0 \<in> set ?y" by (cases ?y) auto
  then have "v0 = c" using yeq by metis
  with v0 c have notall: "\<not> (\<forall>v\<in>set ?y. v = NaN)" by blast
  from nanmin_cases [OF yne] notall obtain m where "nanmin ?y = Inr m" "m \<in> set ?y" by blast
  then have mn: "nanmin ?y = Inr c" using yeq by metis
  from nanmax_cases [OF yne] notall obtain M where "nanmax ?y = Inr M" "M \<in> set ?y" by blast
  then have mx: "nanmax ?y = Inr c" using yeq by metis
  have "preview_minmax d = Inr (c, c)" using mn mx by (simp add: preview_minmax_def)
  then show ?thesis by (rule preview_body_min_eq_max)
qed

lemma downsample_200:
  assumes "length d = 200"
  shows "downsample d = map (\<lambda>i. d ! (i * 3)) [0..<67]"
proof -
  have "downsample d = every_nth 3 d" using assms by (simp add: downsample_def pix_size_def)
  also have "\<dots> = map (\<lambda>i. d ! (i * 3)) [0..<(length d + 3 - 1) div 3]"
    by (rule every_nth_eq) simp
  finally show ?thesis using assms by simp
qed

text \<open>
  Claim C4. \<^verbatim>\<open>getPreviewPixmap\<close> returns \<open>None\<close>, and raises nothing, for a dataset that is
  not one-dimensional or not numeric, and for a one-dimensional numeric dataset whose
  data is empty, or has all values equal, or has no finite value. For the
  one-dimensional numeric dataset with the data \<open>1, 2, ..., 200\<close> it returns a pixmap.
\<close>

theorem getPreviewPixmap_absent:
  "(dimensions ds \<noteq> 1 \<or> ds_datatype ds \<noteq> ''numeric'' \<longrightarrow> getPreviewPixmap ds = Inr None)
   \<and> (dimensions ds = 1 \<and> ds_datatype ds = ''numeric'' \<and>
        (ds_data ds = [] \<or> (\<exists>c. \<forall>v\<in>set (ds_data ds). v = c)
         \<or> (\<forall>v\<in>set (ds_data ds). \<not> isfinite v))
      \<longrightarrow> getPreviewPixmap ds = Inr None)
   \<and> (dimensions ds = 1 \<and> ds_datatype ds = ''numeric'' \<and>
        ds_data ds = map (\<lambda>k. Fin (real k)) [1..<201]
      \<longrightarrow> (\<exists>pix. getPreviewPixmap ds = Inr (Some pix)))"
proof (intro conjI impI)
  assume "dimensions ds \<noteq> 1 \<or> ds_datatype ds \<noteq> ''numeric''"
  then show "getPreviewPixmap ds = Inr None" by (auto simp: getPreviewPixmap_def)
next
  assume a: "dimensions ds = 1 \<and> ds_datatype ds = ''numeric'' \<and>
        (ds_data ds = [] \<or> (\<exists>c. \<forall>v\<in>set (ds_data ds). v = c)
         \<or> (\<forall>v\<in>set (ds_data ds). \<not> isfinite v))"
  have "preview_body (ds_data ds) = Inl ValueError
      \<or> preview_body (ds_data ds) = Inl ZeroDivisionError"
  proof (cases "ds_data ds = []")
    case True
    then show ?thesis by (simp add: preview_body_Nil)
  next
    case False
    from a False consider (eq) c where "\<forall>v\<in>set (ds_data ds). v = c"
      | (nf) "\<forall>v\<in>set (ds_data ds). \<not> isfinite v" by blast
    then show ?thesis
    proof cases
      case eq
      with False show ?thesis by (simp add: preview_body_all_equal)
    next
      case nf
      then have "\<forall>v\<in>set (downsample (ds_data ds)). \<not> isfinite v"
        by (rule ball_downsample)
      with False show ?thesis by (simp add: preview_body_nonfinite)
    qed
  qed
  with a show "getPreviewPixmap ds = Inr None" by (simp add: getPreviewPixmap_caught)
next
  assume a: "dimensions ds = 1 \<and> ds_datatype ds = ''numeric'' \<and>
        ds_data ds = map (\<lambda>k. Fin (real k)) [1..<201]"
  let ?d = "map (\<lambda>k. Fin (real k)) [1..<201]"
  have len: "length ?d = 200" by simp
  have ds: "downsample ?d = map (\<lambda>i. ?d ! (i * 3)) [0..<67]"
    using len by (rule downsample_200)
  have fin: "\<forall>v\<in>set ?d. isfinite v" by (simp del: upt_Suc)
  have "(\<lambda>i. ?d ! (i * 3)) 0 \<in> set (map (\<lambda>i. ?d ! (i * 3)) [0..<67])"
    by (rule imageI [of 0 "set [0..<67]" "\<lambda>i. ?d ! (i * 3)", unfolded set_map [symmetric]]) simp
  moreover have "?d ! 0 = Fin 1" by (simp del: upt_Suc)
  ultimately have u: "Fin 1 \<in> set (downsample ?d)" using ds by simp
  have "(\<lambda>i. ?d ! (i * 3)) 1 \<in> set (map (\<lambda>i. ?d ! (i * 3)) [0..<67])"
    by (rule imageI [of 1 "set [0..<67]" "\<lambda>i. ?d ! (i * 3)", unfolded set_map [symmetric]]) simp
  moreover have "?d ! 3 = Fin 4" by (simp del: upt_Suc)
  ultimately have w: "Fin 4 \<in> set (downsample ?d)" using ds by simp
  have "Fin 1 \<noteq> Fin 4" by simp
  with fin u w obtain pix where "preview_body ?d = Inr pix"
    using preview_body_draws [of ?d "Fin 1" "Fin 4"] by blast
  with a show "\<exists>pix. getPreviewPixmap ds = Inr (Some pix)"
    by (simp add: getPreviewPixmap_def)
qed

lemma preview_minmax_spec:
  assumes ex: "\<exists>v\<in>set (downsample d). v \<noteq> NaN"
  shows "\<exists>m M. preview_minmax d = Inr (m, M) \<and> m \<in> set (downsample d) \<and> M \<in> set (downsample d)
         \<and> m \<noteq> NaN \<and> M \<noteq> NaN
         \<and> (\<forall>v\<in>set (downsample d). v \<noteq> NaN \<longrightarrow> np_le m v \<and> np_le v M)"
proof -
  let ?y = "downsample d"
  from ex have yne: "?y \<noteq> []" by (cases ?y) simp_all
  from ex have notall: "\<not> (\<forall>v\<in>set ?y. v = NaN)" by blast
  from nanmin_cases [OF yne] notall obtain m where
    m: "nanmin ?y = Inr m" "m \<in> set ?y" "m \<noteq> NaN" "\<forall>v\<in>set ?y. v \<noteq> NaN \<longrightarrow> np_le m v"
    by blast
  from nanmax_cases [OF yne] notall obtain M where
    M: "nanmax ?y = Inr M" "M \<in> set ?y" "M \<noteq> NaN" "\<forall>v\<in>set ?y. v \<noteq> NaN \<longrightarrow> np_le v M"
    by blast
  have "preview_minmax d = Inr (m, M)" using m(1) M(1) by (simp add: preview_minmax_def)
  with m M show ?thesis by blast
qed

lemma getPreviewPixmap_no_finite:
  assumes "dimensions ds = 1" "ds_datatype ds = ''numeric''"
    and nf: "\<forall>v\<in>set (downsample (ds_data ds)). \<not> isfinite v"
  shows "getPreviewPixmap ds = Inr None"
proof -
  have "preview_body (ds_data ds) = Inl ValueError
      \<or> preview_body (ds_data ds) = Inl ZeroDivisionError"
  proof (cases "ds_data ds = []")
    case True
    then show ?thesis by (simp add: preview_body_Nil)
  next
    case False
    with nf show ?thesis by (simp add: preview_body_nonfinite)
  qed
  with assms(1,2) show ?thesis by (rule getPreviewPixmap_caught)
qed

lemma getPreviewPixmap_min_eq_max:
  assumes "dimensions ds = 1" "ds_datatype ds = ''numeric''"
    and "preview_minmax (ds_data ds) = Inr (m, m)"
  shows "getPreviewPixmap ds = Inr None"
proof -
  have "preview_body (ds_data ds) = Inl ZeroDivisionError"
    using assms(3) by (rule preview_body_min_eq_max)
  with assms(1,2) show ?thesis by (simp add: getPreviewPixmap_caught)
qed

text \<open>
  Claim C5, as amended. The minimum and the maximum that normalise the data points are
  those of the data points that are not \<open>nan\<close>: \<^verbatim>\<open>nanmin\<close> and \<^verbatim>\<open>nanmax\<close> leave out \<open>nan\<close>
  only, and an infinite data point is the minimum or the maximum. When no data point
  is finite (also when there is none), or the minimum equals the maximum, the result
  is \<open>None\<close>.
\<close>

theorem preview_minmax_nan_only:
  "((\<exists>v\<in>set (downsample (ds_data ds)). v \<noteq> NaN) \<longrightarrow>
      (\<exists>m M. preview_minmax (ds_data ds) = Inr (m, M)
         \<and> m \<in> set (downsample (ds_data ds)) \<and> M \<in> set (downsample (ds_data ds))
         \<and> m \<noteq> NaN \<and> M \<noteq> NaN
         \<and> (\<forall>v\<in>set (downsample (ds_data ds)). v \<noteq> NaN \<longrightarrow> np_le m v \<and> np_le v M)))
   \<and> (dimensions ds = 1 \<and> ds_datatype ds = ''numeric''
        \<and> (\<forall>v\<in>set (downsample (ds_data ds)). \<not> isfinite v) \<longrightarrow> getPreviewPixmap ds = Inr None)
   \<and> (dimensions ds = 1 \<and> ds_datatype ds = ''numeric''
        \<and> (\<exists>m. preview_minmax (ds_data ds) = Inr (m, m)) \<longrightarrow> getPreviewPixmap ds = Inr None)"
  using preview_minmax_spec [of "ds_data ds"] getPreviewPixmap_no_finite [of ds]
    getPreviewPixmap_min_eq_max [of ds]
  by blast

lemmas preview_eval = getPreviewPixmap_def preview_body_def preview_minmax_def nanmin_def
  nanmax_def downsample_def pix_size_def np_sub_def np_min_def np_max_def np_lt_def Let_def
  ds0_def

theorem preview_minmax_nan_only_witness:
  "getPreviewPixmap (ds0\<lparr>ds_data := [NaN, PInf]\<rparr>) = Inr None
   \<and> getPreviewPixmap (ds0\<lparr>ds_data := [Fin 5, NaN, Fin 5]\<rparr>) = Inr None"
proof -
  have 1: "getPreviewPixmap (ds0\<lparr>ds_data := [NaN, PInf]\<rparr>) = Inr None"
    using preview_minmax_nan_only [of "ds0\<lparr>ds_data := [NaN, PInf]\<rparr>"]
    by (simp add: ds0_def downsample_def pix_size_def)
  have "preview_minmax [Fin 5, NaN, Fin 5] = Inr (Fin 5, Fin 5)"
    by (simp add: preview_eval)
  then have 2: "getPreviewPixmap (ds0\<lparr>ds_data := [Fin 5, NaN, Fin 5]\<rparr>) = Inr None"
    using preview_minmax_nan_only [of "ds0\<lparr>ds_data := [Fin 5, NaN, Fin 5]\<rparr>"]
    by (simp add: ds0_def)
  from 1 2 show ?thesis by simp
qed

text \<open>
  The claim C5 as stated fails on the data \<open>1, 2, inf\<close>: the maximum that is used is
  \<open>inf\<close>, not \<open>2\<close>, and both finite points are drawn at the bottom of the pixmap,
  while the data \<open>1, 2\<close> alone gives a rising line.
\<close>

theorem preview_minmax_inf_counterexample:
  "preview_minmax [Fin 1, Fin 2, PInf] = Inr (Fin 1, PInf)
   \<and> getPreviewPixmap (ds0\<lparr>ds_data := [Fin 1, Fin 2, PInf]\<rparr>)
       = Inr (Some \<lparr>polyline = [(Fin 0, Fin 70), (Fin 70, Fin 70)],
                    drawn_lines = [((Fin 0, Fin 70), (Fin 70, Fin 70)),
                                   ((Fin 0, Fin 0), (Fin 0, Fin 70))]\<rparr>)
   \<and> getPreviewPixmap (ds0\<lparr>ds_data := [Fin 1, Fin 2]\<rparr>)
       = Inr (Some \<lparr>polyline = [(Fin 0, Fin 70), (Fin 70, Fin 0)],
                    drawn_lines = [((Fin 0, Fin 70), (Fin 70, Fin 70)),
                                   ((Fin 0, Fin 0), (Fin 0, Fin 70))]\<rparr>)"
  by (simp add: preview_eval)

theorem getPreviewPixmap_absent_witness:
  "getPreviewPixmap (ds0\<lparr>ds_data := [Fin 5, Fin 5, Fin 5, Fin 5]\<rparr>) = Inr None
   \<and> getPreviewPixmap (ds0\<lparr>dimensions := 2, ds_data := [Fin 1, Fin 2]\<rparr>) = Inr None
   \<and> getPreviewPixmap (ds0\<lparr>ds_data := []\<rparr>) = Inr None
   \<and> getPreviewPixmap (ds0\<lparr>ds_data := [NaN, NInf]\<rparr>) = Inr None
   \<and> (\<exists>pix. getPreviewPixmap (ds0\<lparr>ds_data := map (\<lambda>k. Fin (real k)) [1..<201]\<rparr>)
         = Inr (Some pix))"
proof -
  have 1: "getPreviewPixmap (ds0\<lparr>ds_data := [Fin 5, Fin 5, Fin 5, Fin 5]\<rparr>) = Inr None"
    using getPreviewPixmap_absent [of "ds0\<lparr>ds_data := [Fin 5, Fin 5, Fin 5, Fin 5]\<rparr>"]
    by (simp add: ds0_def)
  have 2: "getPreviewPixmap (ds0\<lparr>dimensions := 2, ds_data := [Fin 1, Fin 2]\<rparr>) = Inr None"
    using getPreviewPixmap_absent [of "ds0\<lparr>dimensions := 2, ds_data := [Fin 1, Fin 2]\<rparr>"]
    by (simp add: ds0_def)
  have 3: "getPreviewPixmap (ds0\<lparr>ds_data := []\<rparr>) = Inr None"
    using getPreviewPixmap_absent [of "ds0\<lparr>ds_data := []\<rparr>"]
    by (simp add: ds0_def)
  have 4: "getPreviewPixmap (ds0\<lparr>ds_data := [NaN, NInf]\<rparr>) = Inr None"
    using getPreviewPixmap_absent [of "ds0\<lparr>ds_data := [NaN, NInf]\<rparr>"]
    by (simp add: ds0_def)
  have 5: "\<exists>pix. getPreviewPixmap (ds0\<lparr>ds_data := map (\<lambda>k. Fin (real k)) [1..<201]\<rparr>)
         = Inr (Some pix)"
    using getPreviewPixmap_absent [of "ds0\<lparr>ds_data := map (\<lambda>k. Fin (real k)) [1..<201]\<rparr>"]
    by (simp add: ds0_def del: upt_Suc)
  from 1 2 3 4 5 show ?thesis by simp
qed


subsection \<open>The tree without grouping\<close>

lemma set_insert_sorted: "set (insert_sorted c cs) = insert c (set cs)"
  by (induction cs) auto

lemma sorted_insert_sorted:
  "sorted (map data cs) \<Longrightarrow> sorted (map data (insert_sorted c cs))"
proof (induction cs)
  case Nil
  then show ?case by simp
next
  case (Cons d ds)
  show ?case
  proof (cases "data c < data d")
    case True
    then have "\<forall>x\<in>set ds. data c \<le> data x" using Cons.prems by auto
    with True Cons.prems show ?thesis by simp
  next
    case False
    then have "data d \<le> data c" by simp
    with False Cons show ?thesis by (simp add: set_insert_sorted)
  qed
qed

lemma distinct_insert_sorted:
  "distinct (map data (insert_sorted c cs)) = (data c \<notin> data ` set cs \<and> distinct (map data cs))"
  by (induction cs) (auto simp: set_insert_sorted)

lemma fold_insert_sorted_snoc:
  "fold insert_sorted (xs @ [c]) acc = insert_sorted c (fold insert_sorted xs acc)"
  by simp

lemma set_fold_insert_sorted: "set (fold insert_sorted xs acc) = set xs \<union> set acc"
  by (induction xs arbitrary: acc) (auto simp: set_insert_sorted)

lemma sorted_fold_insert_sorted:
  "sorted (map data acc) \<Longrightarrow> sorted (map data (fold insert_sorted xs acc))"
  by (induction xs arbitrary: acc) (simp_all add: sorted_insert_sorted)

lemma distinct_fold_insert_sorted:
  "distinct (map data (xs @ acc)) \<Longrightarrow> distinct (map data (fold insert_sorted xs acc))"
proof (induction xs arbitrary: acc)
  case Nil
  then show ?case by simp
next
  case (Cons x xs)
  have "distinct (map data (xs @ insert_sorted x acc))"
    using Cons.prems by (auto simp: distinct_insert_sorted set_insert_sorted)
  then show ?case using Cons.IH by simp
qed

lemma fold_insert_sorted_unique:
  assumes d: "distinct (map data ns)" and s: "set R = set ns"
    and so: "sorted (map data R)" and di: "distinct (map data R)"
  shows "fold insert_sorted ns [] = R"
proof -
  let ?L = "fold insert_sorted ns []"
  have setL: "set ?L = set ns" by (simp add: set_fold_insert_sorted)
  have "sorted (map data ?L)" by (rule sorted_fold_insert_sorted) simp
  moreover have "distinct (map data ?L)" by (rule distinct_fold_insert_sorted) (simp add: d)
  moreover have "set (map data ?L) = set (map data R)" using setL s by simp
  ultimately have eq: "map data ?L = map data R"
    using so di by (simp add: sorted_distinct_set_unique)
  have "inj_on data (set ns)" using d by (simp add: distinct_map)
  then have "inj_on data (set ?L \<union> set R)" using setL s by simp
  then show ?thesis using eq by (simp add: inj_on_map_eq_map)
qed

lemma data_dataset_node:
  "data (dataset_node (''name'' # cs) item) = fst item # column_values (fst item) (snd item) cs"
  by (simp add: dataset_node_def)

lemma hd_data_dataset_node: "hd (data (dataset_node (''name'' # cs) item)) = fst item"
  by (simp add: data_dataset_node)

lemma distinct_data_dataset_nodes:
  assumes "distinct (map fst xs)"
  shows "distinct (map data (map (dataset_node (''name'' # cs)) xs))"
proof -
  have "map hd (map data (map (dataset_node (''name'' # cs)) xs)) = map fst xs"
    by (simp add: hd_data_dataset_node)
  with assms show ?thesis by (metis distinct_map)
qed

lemma sorted_data_dataset_nodes:
  "sorted (map fst ys) \<Longrightarrow> distinct (map fst ys) \<Longrightarrow>
     sorted (map data (map (dataset_node (''name'' # cs)) ys))"
proof (induction ys)
  case Nil
  then show ?case by simp
next
  case (Cons y ys)
  have "data (dataset_node (''name'' # cs) y) \<le> data (dataset_node (''name'' # cs) z)"
    if z: "z \<in> set ys" for z
  proof -
    from Cons.prems z have "fst y \<le> fst z" and "fst y \<noteq> fst z" by auto
    then have "fst y < fst z" by simp
    then show ?thesis by (simp add: data_dataset_node less_imp_le)
  qed
  with Cons show ?case by simp
qed

lemma isort_dataset_nodes:
  assumes d: "distinct (map fst xs)"
  shows "fold insert_sorted (map (dataset_node (''name'' # cs)) xs) []
     = map (dataset_node (''name'' # cs)) (sort_key fst xs)"
proof (rule fold_insert_sorted_unique)
  show "distinct (map data (map (dataset_node (''name'' # cs)) xs))"
    using d by (rule distinct_data_dataset_nodes)
  show "set (map (dataset_node (''name'' # cs)) (sort_key fst xs))
      = set (map (dataset_node (''name'' # cs)) xs)" by simp
  have ds: "distinct (map fst (sort_key fst xs))"
    using d by (simp add: distinct_map)
  have "sorted (map fst (sort_key fst xs))" by (rule sorted_sort_key)
  then show "sorted (map data (map (dataset_node (''name'' # cs)) (sort_key fst xs)))"
    using ds by (rule sorted_data_dataset_nodes)
  show "distinct (map data (map (dataset_node (''name'' # cs)) (sort_key fst xs)))"
    using ds by (rule distinct_data_dataset_nodes)
qed

lemma map_fst_sort_key:
  assumes "distinct (map fst xs)"
  shows "map fst (sort_key fst xs) = sort (map fst xs)"
proof (rule sorted_distinct_set_unique)
  show "sorted (map fst (sort_key fst xs))" by (rule sorted_sort_key)
  show "distinct (map fst (sort_key fst xs))" using assms by (simp add: distinct_map)
  show "sorted (sort (map fst xs))" by simp
  show "distinct (sort (map fst xs))" using assms by simp
  show "set (map fst (sort_key fst xs)) = set (sort (map fst xs))" by simp
qed

lemma DatasetNode_init_ok:
  assumes "wf_doc d" and "item \<in> set (doc_data d)"
  shows "DatasetNode_init d (fst item) (''name'' # cs) = Inr (dataset_node (''name'' # cs) item)"
proof -
  have "map_of (doc_data d) (fst item) = Some (snd item)"
    using assms by (simp add: wf_doc_def)
  then show ?thesis
    by (simp add: DatasetNode_init_def doc_lookup_def dataset_node_def)
qed

lemma childnodes_set_childnodes [simp]: "childnodes (set_childnodes t cs) = cs"
  by (cases t) simp_all

lemma data_set_childnodes [simp]: "data (set_childnodes t cs) = data t"
  by (cases t) simp_all

lemma set_childnodes_twice [simp]: "set_childnodes (set_childnodes t cs) cs' = set_childnodes t cs'"
  by (cases t) simp_all

lemma none_loop_pure:
  assumes wf: "wf_doc (doc self)"
  shows "set items \<subseteq> set (doc_data (doc self)) \<Longrightarrow>
    none_loop self items tree =
      Inr (set_childnodes tree
        (fold insert_sorted
          (map (dataset_node [''name'', ''size'', ''type'', ''linkfile''])
            (filter (passes self [''name'', ''size'', ''type'', ''linkfile'']) items))
          (childnodes tree)))"
proof (induction items arbitrary: tree)
  case Nil
  then show ?case by (cases tree) simp_all
next
  case (Cons item items)
  obtain name ds where item: "item = (name, ds)" by (cases item)
  have in_doc: "item \<in> set (doc_data (doc self))" using Cons.prems by simp
  have init: "DatasetNode_init (doc self) name [''name'', ''size'', ''type'', ''linkfile'']
      = Inr (dataset_node [''name'', ''size'', ''type'', ''linkfile''] item)"
    using DatasetNode_init_ok [OF wf in_doc] item by simp
  have sub: "set items \<subseteq> set (doc_data (doc self))" using Cons.prems by simp
  show ?case
    using Cons.IH [OF sub] init item
    by (simp add: passes_def insertChildSorted_def)
qed

text \<open>
  Claim C3. For a document with distinct dataset names and every filter, the tree
  without grouping is a root whose children are the dataset nodes of exactly the
  datasets that the filter keeps, one node for each, in ascending order of the dataset
  name (the first column): every child is a \<^verbatim>\<open>DatasetNode\<close> without children, so there
  are no group nodes and no deeper nesting.
\<close>

theorem makeGrpTreeNone_flat_sorted:
  assumes "wf_doc (doc self)"
  shows "\<exists>t. makeGrpTreeNone tr self = Inr t
    \<and> childnodes t =
        map (dataset_node [''name'', ''size'', ''type'', ''linkfile''])
          (sort_key fst
            (filter (\<lambda>item. \<not> datasetFilterOut self (snd item)
                       (dataset_node [''name'', ''size'', ''type'', ''linkfile''] item))
              (doc_data (doc self))))
    \<and> (\<forall>c\<in>set (childnodes t). is_DatasetNode c \<and> childnodes c = [])
    \<and> map (\<lambda>c. hd (data c)) (childnodes t) =
        sort (map fst
          (filter (\<lambda>item. \<not> datasetFilterOut self (snd item)
                     (dataset_node [''name'', ''size'', ''type'', ''linkfile''] item))
            (doc_data (doc self))))
    \<and> sorted (map (\<lambda>c. hd (data c)) (childnodes t))
    \<and> distinct (map (\<lambda>c. hd (data c)) (childnodes t))"
proof -
  let ?cols = "[''name'', ''size'', ''type'', ''linkfile'']"
  let ?P = "filter (\<lambda>item. \<not> datasetFilterOut self (snd item) (dataset_node ?cols item))
      (doc_data (doc self))"
  let ?root = "TMNode [tr ''Dataset'', tr ''Size'', tr ''Type'', tr ''File''] []"
  let ?t = "set_childnodes ?root (map (dataset_node ?cols) (sort_key fst ?P))"
  have "passes self ?cols
      = (\<lambda>item. \<not> datasetFilterOut self (snd item) (dataset_node ?cols item))"
    by (rule ext) (simp add: passes_def)
  then have P: "filter (passes self ?cols) (doc_data (doc self)) = ?P" by simp
  have dP: "distinct (map fst ?P)"
    using assms by (simp add: wf_doc_def distinct_map_filter)
  have "makeGrpTreeNone tr self =
      Inr (set_childnodes ?root (fold insert_sorted (map (dataset_node ?cols) ?P) []))"
    using none_loop_pure [OF assms, of "doc_data (doc self)" ?root] P
    by (simp add: makeGrpTreeNone_def)
  then have 1: "makeGrpTreeNone tr self = Inr ?t"
    using isort_dataset_nodes [OF dP] by simp
  have 2: "childnodes ?t = map (dataset_node ?cols) (sort_key fst ?P)" by simp
  have 3: "\<forall>c\<in>set (childnodes ?t). is_DatasetNode c \<and> childnodes c = []"
    by (auto simp: dataset_node_def)
  have 4: "map (\<lambda>c. hd (data c)) (childnodes ?t) = sort (map fst ?P)"
    using map_fst_sort_key [OF dP] by (simp add: hd_data_dataset_node comp_def)
  have 5: "sorted (map (\<lambda>c. hd (data c)) (childnodes ?t))" unfolding 4 by simp
  have 6: "distinct (map (\<lambda>c. hd (data c)) (childnodes ?t))" unfolding 4 using dP by simp
  from 1 2 3 4 5 6 show ?thesis by blast
qed

theorem makeGrpTreeNone_flat_sorted_witness:
  "wf_doc (doc model0)
   \<and> (\<exists>t. makeGrpTreeNone id model0 = Inr t
        \<and> map (\<lambda>c. hd (data c)) (childnodes t) = [''a'', ''b''])"
proof -
  have wf: "wf_doc (doc model0)" by (simp add: wf_doc_def model0_def doc0_def)
  have "sort (map fst
          (filter (\<lambda>item. \<not> datasetFilterOut model0 (snd item)
                     (dataset_node [''name'', ''size'', ''type'', ''linkfile''] item))
            (doc_data (doc model0)))) = [''a'', ''b'']"
    by (simp add: model0_def doc0_def ds0_def datasetFilterOut_def)
  with makeGrpTreeNone_flat_sorted [OF wf, of id] wf show ?thesis by auto
qed


subsection \<open>The grouped tree\<close>

lemma map_fst_group_insert_old:
  "g \<in> fst ` set al \<Longrightarrow> map fst (group_insert cls c g al) = map fst al"
proof (induction al)
  case Nil
  then show ?case by simp
next
  case (Cons a al)
  obtain g' n where a: "a = (g', n)" by (cases a)
  show ?case
  proof (cases "g' = g")
    case True
    with a show ?thesis by simp
  next
    case False
    with Cons.prems a have "g \<in> fst ` set al" by auto
    with Cons.IH False a show ?thesis by simp
  qed
qed

lemma map_fst_group_insert_new:
  "g \<notin> fst ` set al \<Longrightarrow> map fst (group_insert cls c g al) = map fst al @ [g]"
proof (induction al)
  case Nil
  then show ?case by simp
next
  case (Cons a al)
  obtain g' n where a: "a = (g', n)" by (cases a)
  from Cons.prems a have "g' \<noteq> g" and "g \<notin> fst ` set al" by auto
  with Cons.IH a show ?case by simp
qed

lemma map_fst_group_insert:
  "map fst (group_insert cls c g al) =
     (if g \<in> fst ` set al then map fst al else map fst al @ [g])"
  by (simp add: map_fst_group_insert_old map_fst_group_insert_new)

lemma map_of_group_insert:
  "map_of (group_insert cls c g al) g' =
     (if g' = g
      then Some (insertChildSorted (case map_of al g of None \<Rightarrow> new_node cls [g] | Some n \<Rightarrow> n) c)
      else map_of al g')"
  by (induction al) auto

lemma fold_group_insert_pairs:
  "fold (\<lambda>item. fold (group_insert cls (f item)) (grouper (snd item))) P g0 =
   fold (\<lambda>p. group_insert cls (snd p) (fst p))
     (concat (map (\<lambda>item. map (\<lambda>g. (g, f item)) (grouper (snd item))) P)) g0"
proof (induction P arbitrary: g0)
  case Nil
  then show ?case by simp
next
  case (Cons item P)
  have "fold (group_insert cls (f item)) gs g1 =
      fold (\<lambda>p. group_insert cls (snd p) (fst p)) (map (\<lambda>g. (g, f item)) gs) g1" for gs g1
    by (simp add: fold_map comp_def)
  with Cons.IH show ?case by simp
qed

lemma new_node_simps [simp]:
  "data (new_node cls d) = d" "childnodes (new_node cls d) = []"
  "\<not> is_DatasetNode (new_node cls d)"
  by (cases cls; simp)+

lemma insertChildSorted_set_childnodes:
  "insertChildSorted (set_childnodes t cs) c = set_childnodes t (insert_sorted c cs)"
  by (simp add: insertChildSorted_def)

lemma set_childnodes_new_node [simp]: "set_childnodes (new_node cls d) [] = new_node cls d"
  by (cases cls) simp_all

lemma group_fold_props:
  "distinct (map fst (fold (\<lambda>p. group_insert cls (snd p) (fst p)) Q []))
   \<and> set (map fst (fold (\<lambda>p. group_insert cls (snd p) (fst p)) Q [])) = fst ` set Q
   \<and> (\<forall>g. map_of (fold (\<lambda>p. group_insert cls (snd p) (fst p)) Q []) g =
         (if g \<in> fst ` set Q
          then Some (set_childnodes (new_node cls [g])
                 (fold insert_sorted (map snd (filter (\<lambda>p. fst p = g) Q)) []))
          else None))"
proof (induction Q rule: rev_induct)
  case Nil
  then show ?case by simp
next
  case (snoc p Q)
  let ?G = "fold (\<lambda>p. group_insert cls (snd p) (fst p)) Q []"
  have step: "fold (\<lambda>p. group_insert cls (snd p) (fst p)) (Q @ [p]) []
      = group_insert cls (snd p) (fst p) ?G" by simp
  from snoc have d: "distinct (map fst ?G)" and k: "set (map fst ?G) = fst ` set Q"
    and m: "\<And>g. map_of ?G g =
         (if g \<in> fst ` set Q
          then Some (set_childnodes (new_node cls [g])
                 (fold insert_sorted (map snd (filter (\<lambda>p. fst p = g) Q)) []))
          else None)" by simp_all
  have k': "fst ` set ?G = fst ` set Q" using k by simp
  have 1: "distinct (map fst (group_insert cls (snd p) (fst p) ?G))"
    using d k' by (simp add: map_fst_group_insert)
  have 2: "set (map fst (group_insert cls (snd p) (fst p) ?G)) = fst ` set (Q @ [p])"
    using k' by (auto simp: map_fst_group_insert)
  have 3: "map_of (group_insert cls (snd p) (fst p) ?G) g =
         (if g \<in> fst ` set (Q @ [p])
          then Some (set_childnodes (new_node cls [g])
                 (fold insert_sorted (map snd (filter (\<lambda>p. fst p = g) (Q @ [p]))) []))
          else None)" for g
  proof (cases "g = fst p")
    case False
    then show ?thesis by (simp add: map_of_group_insert m)
  next
    case True
    show ?thesis
    proof (cases "fst p \<in> fst ` set Q")
      case True
      with \<open>g = fst p\<close> show ?thesis
        by (simp add: map_of_group_insert m insertChildSorted_set_childnodes)
    next
      case False
      then have "filter (\<lambda>q. fst q = fst p) Q = []"
        by (auto simp: filter_empty_conv image_iff)
      with False \<open>g = fst p\<close> show ?thesis
        by (simp add: map_of_group_insert m insertChildSorted_def)
    qed
  qed
  show ?case unfolding step using 1 2 3 by blast
qed

lemma alist_values:
  "distinct (map fst al) \<Longrightarrow> \<forall>k\<in>set (map fst al). map_of al k = Some (h k) \<Longrightarrow>
     map snd al = map h (map fst al)"
proof (induction al)
  case Nil
  then show ?case by simp
next
  case (Cons a al)
  obtain k v where a: "a = (k, v)" by (cases a)
  have "k \<in> set (map fst (a # al))" using a by simp
  then have "map_of (a # al) k = Some (h k)" by (rule Cons.prems(2) [rule_format])
  then have v: "v = h k" using a by simp
  have "\<forall>k'\<in>set (map fst al). map_of al k' = Some (h k')"
  proof
    fix k' assume k': "k' \<in> set (map fst al)"
    with Cons.prems(1) a have "k' \<noteq> k" by auto
    moreover have "k' \<in> set (map fst (a # al))" using k' by simp
    then have "map_of (a # al) k' = Some (h k')" by (rule Cons.prems(2) [rule_format])
    ultimately show "map_of al k' = Some (h k')" using a by simp
  qed
  moreover from Cons.prems(1) have "distinct (map fst al)" by simp
  ultimately have "map snd al = map h (map fst al)" by (rule Cons.IH [rotated])
  with a v show ?case by simp
qed

lemma sorted_map_singleton: "sorted xs \<Longrightarrow> sorted (map (\<lambda>g. [g]) xs)"
  by (induction xs) auto

lemma distinct_map_singleton: "distinct xs \<Longrightarrow> distinct (map (\<lambda>g. [g]) xs)"
  by (simp add: distinct_map inj_on_def)

lemma group_fold_children:
  "fold insert_sorted (map snd (fold (\<lambda>p. group_insert cls (snd p) (fst p)) Q [])) []
     = map (\<lambda>g. set_childnodes (new_node cls [g])
              (fold insert_sorted (map snd (filter (\<lambda>p. fst p = g) Q)) []))
         (sort (remdups (map fst Q)))"
proof -
  define nd where "nd = (\<lambda>g. set_childnodes (new_node cls [g])
      (fold insert_sorted (map snd (filter (\<lambda>p. fst p = g) Q)) []))"
  let ?G = "fold (\<lambda>p. group_insert cls (snd p) (fst p)) Q []"
  from group_fold_props [of cls Q]
  have d: "distinct (map fst ?G)" and k: "set (map fst ?G) = fst ` set Q"
    and m: "\<And>g. map_of ?G g = (if g \<in> fst ` set Q then Some (nd g) else None)"
    by (simp_all add: nd_def)
  have "\<forall>g\<in>set (map fst ?G). map_of ?G g = Some (nd g)" using k m by simp
  with d have vals: "map snd ?G = map nd (map fst ?G)" by (rule alist_values)
  have data_nd: "data (nd g) = [g]" for g by (simp add: nd_def)
  then have md: "map data (map nd xs) = map (\<lambda>g. [g]) xs" for xs by simp
  have "fold insert_sorted (map snd ?G) [] = map nd (sort (remdups (map fst Q)))"
  proof (rule fold_insert_sorted_unique)
    show "distinct (map data (map snd ?G))"
      unfolding vals md using d by (rule distinct_map_singleton)
    have "set (map snd ?G) = nd ` set (map fst ?G)" unfolding vals by (simp only: set_map)
    also have "\<dots> = nd ` fst ` set Q" unfolding k ..
    finally show "set (map nd (sort (remdups (map fst Q)))) = set (map snd ?G)"
      by simp
    show "sorted (map data (map nd (sort (remdups (map fst Q)))))"
      unfolding md by (rule sorted_map_singleton) simp
    show "distinct (map data (map nd (sort (remdups (map fst Q)))))"
      unfolding md by (rule distinct_map_singleton) simp
  qed
  then show ?thesis unfolding nd_def .
qed

lemma filter_eq_distinct:
  "distinct xs \<Longrightarrow> filter (\<lambda>x. x = g) xs = (if g \<in> set xs then [g] else [])"
  by (induction xs) auto

lemma pairs_filter:
  "\<forall>item\<in>set P. distinct (grouper (snd item)) \<Longrightarrow>
   map snd (filter (\<lambda>p. fst p = g)
      (concat (map (\<lambda>item. map (\<lambda>g. (g, f item)) (grouper (snd item))) P)))
   = map f (filter (\<lambda>item. g \<in> set (grouper (snd item))) P)"
proof (induction P)
  case Nil
  then show ?case by simp
next
  case (Cons item P)
  have d: "distinct (grouper (snd item))" using Cons.prems by simp
  have "map snd (filter (\<lambda>p. fst p = g) (map (\<lambda>g. (g, f item)) (grouper (snd item))))
      = map (\<lambda>g. f item) (filter (\<lambda>x. x = g) (grouper (snd item)))"
    by (simp add: filter_map comp_def)
  also have "\<dots> = (if g \<in> set (grouper (snd item)) then [f item] else [])"
    using d by (simp add: filter_eq_distinct)
  finally have here: "map snd (filter (\<lambda>p. fst p = g) (map (\<lambda>g. (g, f item)) (grouper (snd item))))
      = (if g \<in> set (grouper (snd item)) then [f item] else [])" .
  have "\<forall>item\<in>set P. distinct (grouper (snd item))" using Cons.prems by simp
  then show ?case using Cons.IH here by simp
qed

lemma map_fst_pairs:
  "map fst (concat (map (\<lambda>item. map (\<lambda>g. (g, f item)) (grouper (snd item))) P))
     = concat (map (\<lambda>item. grouper (snd item)) P)"
  by (induction P) (simp_all add: comp_def)

lemma grp_loop_pure:
  assumes wf: "wf_doc (doc self)"
  shows "set items \<subseteq> set (doc_data (doc self)) \<Longrightarrow>
    grp_loop self (''name'' # cs) grouper cls items g0 =
      Inr (fold (\<lambda>item. fold (group_insert cls (dataset_node (''name'' # cs) item))
                   (grouper (snd item)))
             (filter (passes self (''name'' # cs)) items) g0)"
proof (induction items arbitrary: g0)
  case Nil
  then show ?case by simp
next
  case (Cons item items)
  obtain name ds where item: "item = (name, ds)" by (cases item)
  have in_doc: "item \<in> set (doc_data (doc self))" using Cons.prems by simp
  have init: "DatasetNode_init (doc self) name (''name'' # cs)
      = Inr (dataset_node (''name'' # cs) item)"
    using DatasetNode_init_ok [OF wf in_doc] item by simp
  have sub: "set items \<subseteq> set (doc_data (doc self))" using Cons.prems by simp
  show ?case
    using Cons.IH [OF sub] init item by (simp add: passes_def)
qed

lemma treeFromList_children:
  "treeFromList ns titles = TMNode titles (fold insert_sorted ns [])"
proof -
  have "fold (\<lambda>n tree. insertChildSorted tree n) ns t
      = set_childnodes t (fold insert_sorted ns (childnodes t))" for t
  proof (induction ns arbitrary: t)
    case Nil
    then show ?case by (cases t) simp_all
  next
    case (Cons n ns)
    then show ?case by (simp add: insertChildSorted_def)
  qed
  then show ?thesis by simp
qed

lemma makeGrpTree_closed:
  assumes wf: "wf_doc (doc self)" and dg: "\<forall>ds. distinct (grouper ds)"
  shows "makeGrpTree self coltitles (''name'' # cs) grouper cls =
    Inr (grouped_tree coltitles (''name'' # cs) grouper cls
          (filter (passes self (''name'' # cs)) (doc_data (doc self))))"
proof -
  let ?cols = "''name'' # cs"
  let ?P = "filter (passes self ?cols) (doc_data (doc self))"
  let ?Q = "concat (map (\<lambda>item. map (\<lambda>g. (g, dataset_node ?cols item)) (grouper (snd item))) ?P)"
  let ?G = "fold (\<lambda>p. group_insert cls (snd p) (fst p)) ?Q []"
  have dP: "distinct (map fst ?P)" using wf by (simp add: wf_doc_def distinct_map_filter)
  have loop: "grp_loop self ?cols grouper cls (doc_data (doc self)) [] = Inr ?G"
    using grp_loop_pure [OF wf, of "doc_data (doc self)" cs grouper cls "[]"]
    by (simp add: fold_group_insert_pairs)
  have keys: "map fst ?Q = concat (map (\<lambda>item. grouper (snd item)) ?P)"
    by (rule map_fst_pairs)
  have kids: "fold insert_sorted (map snd (filter (\<lambda>p. fst p = g) ?Q)) []
      = map (dataset_node ?cols)
          (sort_key fst (filter (\<lambda>item. g \<in> set (grouper (snd item))) ?P))" for g
  proof -
    have "map snd (filter (\<lambda>p. fst p = g) ?Q)
        = map (dataset_node ?cols) (filter (\<lambda>item. g \<in> set (grouper (snd item))) ?P)"
      by (rule pairs_filter) (simp add: dg)
    moreover have "distinct (map fst (filter (\<lambda>item. g \<in> set (grouper (snd item))) ?P))"
      using dP by (rule distinct_map_filter)
    ultimately show ?thesis by (simp add: isort_dataset_nodes)
  qed
  have "fold insert_sorted (map snd ?G) []
      = map (\<lambda>g. set_childnodes (new_node cls [g])
                (fold insert_sorted (map snd (filter (\<lambda>p. fst p = g) ?Q)) []))
          (sort (remdups (map fst ?Q)))"
    by (rule group_fold_children)
  also have "\<dots> = map (group_node cls ?cols grouper ?P)
      (sort (remdups (concat (map (\<lambda>item. grouper (snd item)) ?P))))"
    unfolding keys by (simp add: kids group_node_def)
  finally show ?thesis
    using loop
    by (simp add: makeGrpTree_def treeFromList_children grouped_tree_def
        del: treeFromList.simps)
qed


subsection \<open>Where a dataset occurs in a grouped tree\<close>

lemma filter_key_unique:
  "distinct (map fst xs) \<Longrightarrow> (k, v) \<in> set xs \<Longrightarrow> filter (\<lambda>x. fst x = k) xs = [(k, v)]"
proof (induction xs)
  case Nil
  then show ?case by simp
next
  case (Cons a xs)
  show ?case
  proof (cases "a = (k, v)")
    case True
    with Cons.prems(1) have "k \<notin> fst ` set xs" by simp
    then have "filter (\<lambda>x. fst x = k) xs = []" by (auto simp: filter_empty_conv image_iff)
    with True show ?thesis by simp
  next
    case False
    with Cons.prems(2) have in_xs: "(k, v) \<in> set xs" by simp
    then have "k \<in> fst ` set xs" by (rule rev_image_eqI) simp
    with Cons.prems(1) have "fst a \<noteq> k" by auto
    moreover have "filter (\<lambda>x. fst x = k) xs = [(k, v)]"
      using Cons.IH Cons.prems(1) in_xs by simp
    ultimately show ?thesis by simp
  qed
qed

lemma filter_key_absent:
  "k \<notin> fst ` set xs \<Longrightarrow> filter (\<lambda>x. fst x = k) xs = []"
  by (auto simp: filter_empty_conv image_iff)

lemma named_dataset_node: "named name (dataset_node (''name'' # cs) item) = (fst item = name)"
  by (simp add: named_def dataset_node_def)

lemma filter_named_group:
  "filter (named name) (childnodes (group_node cls (''name'' # cs) grouper kept g))
   = map (dataset_node (''name'' # cs))
       (filter (\<lambda>item. g \<in> set (grouper (snd item))) (filter (\<lambda>x. fst x = name) kept))"
proof -
  have "filter (named name) (map (dataset_node (''name'' # cs)) xs)
      = map (dataset_node (''name'' # cs)) (filter (\<lambda>x. fst x = name) xs)" for xs
    by (simp add: filter_map comp_def named_dataset_node)
  moreover have "filter (\<lambda>x. fst x = name)
        (sort_key fst (filter (\<lambda>item. g \<in> set (grouper (snd item))) kept))
      = filter (\<lambda>x. fst x = name) (filter (\<lambda>item. g \<in> set (grouper (snd item))) kept)"
    by (rule sort_key_stable)
  moreover have "filter (\<lambda>x. fst x = name) (filter (\<lambda>item. g \<in> set (grouper (snd item))) kept)
      = filter (\<lambda>item. g \<in> set (grouper (snd item))) (filter (\<lambda>x. fst x = name) kept)"
    by (simp add: conj_commute)
  ultimately show ?thesis by (simp add: group_node_def)
qed

lemma data_group_node [simp]: "data (group_node cls colitems grouper kept g) = [g]"
  by (simp add: group_node_def)

lemma occurrences_grouped_absent:
  assumes "name \<notin> fst ` set kept"
  shows "occurrences (grouped_tree titles (''name'' # cs) grouper cls kept) (named name) = []"
  using assms
  by (simp add: occurrences_def grouped_tree_def filter_named_group filter_key_absent comp_def)

lemma concat_map_if:
  "concat (map (\<lambda>g. if P g then [h g] else []) xs) = map h (filter P xs)"
  by (induction xs) simp_all

lemma occurrences_grouped_present:
  assumes d: "distinct (map fst kept)" and inn: "(name, ds) \<in> set kept"
    and so: "sorted (grouper ds)" and di: "distinct (grouper ds)"
  shows "occurrences (grouped_tree titles (''name'' # cs) grouper cls kept) (named name)
      = map (\<lambda>g. [g]) (grouper ds)"
proof -
  let ?keys = "sort (remdups (concat (map (\<lambda>item. grouper (snd item)) kept)))"
  have one: "filter (\<lambda>x. fst x = name) kept = [(name, ds)]"
    using d inn by (rule filter_key_unique)
  have inner: "map (\<lambda>c. data (group_node cls (''name'' # cs) grouper kept g))
        (filter (named name) (childnodes (group_node cls (''name'' # cs) grouper kept g)))
      = (if g \<in> set (grouper ds) then [[g]] else [])" for g
    by (simp add: filter_named_group one)
  have "occurrences (grouped_tree titles (''name'' # cs) grouper cls kept) (named name)
      = concat (map (\<lambda>g. map (\<lambda>c. data (group_node cls (''name'' # cs) grouper kept g))
          (filter (named name) (childnodes (group_node cls (''name'' # cs) grouper kept g))))
          ?keys)"
    by (simp add: occurrences_def grouped_tree_def comp_def)
  also have "\<dots> = concat (map (\<lambda>g. if g \<in> set (grouper ds) then [[g]] else []) ?keys)"
    by (simp only: inner)
  also have "\<dots> = map (\<lambda>g. [g]) (filter (\<lambda>g. g \<in> set (grouper ds)) ?keys)"
    by (rule concat_map_if)
  also have "filter (\<lambda>g. g \<in> set (grouper ds)) ?keys = grouper ds"
  proof (rule sorted_distinct_set_unique)
    show "sorted (filter (\<lambda>g. g \<in> set (grouper ds)) ?keys)" by (rule sorted_wrt_filter) simp
    show "distinct (filter (\<lambda>g. g \<in> set (grouper ds)) ?keys)" by simp
    show "sorted (grouper ds)" by (rule so)
    show "distinct (grouper ds)" by (rule di)
    have "set (grouper ds) \<subseteq> set ?keys" using inn by force
    then show "set (filter (\<lambda>g. g \<in> set (grouper ds)) ?keys) = set (grouper ds)" by auto
  qed
  finally show ?thesis .
qed

lemma getgrp_props:
  "sorted (getgrp tr ds)" "distinct (getgrp tr ds)" "getgrp tr ds \<noteq> []"
  "set (getgrp tr ds) = (if tags ds \<noteq> {||} then fset (tags ds) else {tr ''None''})"
proof -
  show "sorted (getgrp tr ds)" by (simp add: getgrp_def sorted_list_of_fset.rep_eq)
  show "distinct (getgrp tr ds)" by (simp add: getgrp_def sorted_list_of_fset.rep_eq)
  show "set (getgrp tr ds) = (if tags ds \<noteq> {||} then fset (tags ds) else {tr ''None''})"
    by (simp add: getgrp_def)
  then show "getgrp tr ds \<noteq> []" by (metis bot_fset.rep_eq empty_set fset_inject insert_not_empty)
qed

lemma kept_distinct:
  "wf_doc (doc self) \<Longrightarrow> distinct (map fst (filter (passes self colitems) (doc_data (doc self))))"
  by (simp add: wf_doc_def distinct_map_filter)

lemma kept_absent:
  assumes wf: "wf_doc (doc self)" and inn: "(name, ds) \<in> set (doc_data (doc self))"
    and np: "\<not> passes self colitems (name, ds)"
  shows "name \<notin> fst ` set (filter (passes self colitems) (doc_data (doc self)))"
proof
  assume "name \<in> fst ` set (filter (passes self colitems) (doc_data (doc self)))"
  then obtain ds' where k: "(name, ds') \<in> set (doc_data (doc self))"
    and p: "passes self colitems (name, ds')" by auto
  have "map_of (doc_data (doc self)) name = Some ds'"
    using wf k by (simp add: wf_doc_def)
  moreover have "map_of (doc_data (doc self)) name = Some ds"
    using wf inn by (simp add: wf_doc_def)
  ultimately have "ds' = ds" by simp
  with p np show False by simp
qed

lemma passes_iff:
  "passes self colitems item =
     ((\<forall>fd. filterdims self = Some fd \<longrightarrow> dimensions (snd item) \<in> fd) \<and>
      (\<forall>ft. filterdtype self = Some ft \<longrightarrow> ds_datatype (snd item) \<in> ft) \<and>
      (filter_text self = [] \<or>
       (\<exists>t. t |\<in>| tags (snd item) \<and> sublist (filter_text self) t) \<or>
       (\<exists>t \<in> set (column_values (fst item) (snd item) colitems). sublist (filter_text self) t)))"
  by (auto simp: passes_def dataset_node_def datasetFilterOut_def Let_def str_find_sublist
      list_ex_iff split: option.splits)

lemma sorted_list_of_fset_sorted: "sorted (sorted_list_of_fset S)"
  by (simp add: sorted_list_of_fset.rep_eq)

lemma sorted_list_of_fset_distinct: "distinct (sorted_list_of_fset S)"
  by (simp add: sorted_list_of_fset.rep_eq)

lemma sorted_list_of_fset_pair:
  assumes "a < b"
  shows "sorted_list_of_fset {|a, b|} = [a, b]"
proof (rule sorted_distinct_set_unique)
  show "sorted (sorted_list_of_fset {|a, b|})" by (rule sorted_list_of_fset_sorted)
  show "distinct (sorted_list_of_fset {|a, b|})" by (rule sorted_list_of_fset_distinct)
  show "sorted [a, b]" using assms by simp
  show "distinct [a, b]" using assms by simp
  show "set (sorted_list_of_fset {|a, b|}) = set [a, b]" by simp
qed

lemma makeGrpTreeTags_closed:
  assumes wf: "wf_doc (doc self)"
  shows "makeGrpTreeTags tr self =
    Inr (grouped_tree [tr ''Dataset'', tr ''Size'', tr ''Type'', tr ''Filename'']
          [''name'', ''size'', ''type'', ''linkfile''] (getgrp tr) TMNodeClass
          (filter (passes self [''name'', ''size'', ''type'', ''linkfile''])
             (doc_data (doc self))))"
  unfolding makeGrpTreeTags_def
  by (rule makeGrpTree_closed [OF wf]) (simp add: getgrp_props)

lemma makeGrpTreeFilename_closed:
  assumes wf: "wf_doc (doc self)"
  shows "makeGrpTreeFilename tr self =
    Inr (grouped_tree [tr ''Dataset'', tr ''Size'', tr ''Type'']
          [''name'', ''size'', ''type''] (\<lambda>ds. [datasetLinkFile ds]) FilenameNodeClass
          (filter (passes self [''name'', ''size'', ''type'']) (doc_data (doc self))))"
  unfolding makeGrpTreeFilename_def
  by (rule makeGrpTree_closed [OF wf]) simp

text \<open>
  Claim C2. In the tree grouped by tags of a document with distinct dataset names, a
  dataset of a model without a filter (as the model is made), or a dataset that the
  filter keeps, has its dataset node as a child of the group node of each of its tags; the groups under which it occurs are exactly its tags, one
  occurrence for each tag (for the tags \<open>a\<close> and \<open>b\<close>: once under \<open>a\<close> and once under
  \<open>b\<close>). A kept dataset without tags occurs exactly once, under the group labelled
  with the translation of \<open>None\<close>. The labels of the group nodes are distinct, so
  there is one such group.
\<close>

theorem makeGrpTreeTags_membership:
  assumes wf: "wf_doc (doc self)"
    and inn: "(name, ds) \<in> set (doc_data (doc self))"
    and kept_or_unfiltered:
      "(filter_text self = [] \<and> filterdims self = None \<and> filterdtype self = None)
       \<or> \<not> datasetFilterOut self ds
            (dataset_node [''name'', ''size'', ''type'', ''linkfile''] (name, ds))"
  shows "\<exists>t. makeGrpTreeTags tr self = Inr t
    \<and> distinct (map data (childnodes t))
    \<and> (\<forall>g. g |\<in>| tags ds \<longrightarrow>
          (\<exists>grp\<in>set (childnodes t). data grp = [g] \<and> \<not> is_DatasetNode grp
             \<and> dataset_node [''name'', ''size'', ''type'', ''linkfile''] (name, ds)
                  \<in> set (childnodes grp)))
    \<and> (tags ds \<noteq> {||} \<longrightarrow>
          occurrences t (named name) = map (\<lambda>g. [g]) (sorted_list_of_fset (tags ds)))
    \<and> (\<forall>a b. tags ds = {|a, b|} \<and> a < b \<longrightarrow> occurrences t (named name) = [[a], [b]])
    \<and> (tags ds = {||} \<longrightarrow> occurrences t (named name) = [[tr ''None'']])"
proof -
  let ?cols = "[''name'', ''size'', ''type'', ''linkfile'']"
  let ?kept = "filter (passes self ?cols) (doc_data (doc self))"
  let ?keys = "sort (remdups (concat (map (\<lambda>item. getgrp tr (snd item)) ?kept)))"
  let ?t = "grouped_tree [tr ''Dataset'', tr ''Size'', tr ''Type'', tr ''Filename'']
      ?cols (getgrp tr) TMNodeClass ?kept"
  have t: "makeGrpTreeTags tr self = Inr ?t" using wf by (rule makeGrpTreeTags_closed)
  have keep: "\<not> datasetFilterOut self ds (dataset_node ?cols (name, ds))"
    using kept_or_unfiltered by (auto simp: datasetFilterOut_def)
  have kept: "(name, ds) \<in> set ?kept" using inn keep by (simp add: passes_def)
  have kids: "childnodes ?t = map (group_node TMNodeClass ?cols (getgrp tr) ?kept) ?keys"
    by (simp add: grouped_tree_def)
  have "map data (childnodes ?t) = map (\<lambda>g. [g]) ?keys" unfolding kids by simp
  then have 1: "distinct (map data (childnodes ?t))" by (simp add: distinct_map inj_on_def)
  have occ: "occurrences ?t (named name) = map (\<lambda>g. [g]) (getgrp tr ds)"
    using kept_distinct [OF wf] kept getgrp_props(1,2) by (rule occurrences_grouped_present)
  have 2: "\<exists>grp\<in>set (childnodes ?t). data grp = [g] \<and> \<not> is_DatasetNode grp
      \<and> dataset_node ?cols (name, ds) \<in> set (childnodes grp)" if g: "g |\<in>| tags ds" for g
  proof -
    let ?grp = "group_node TMNodeClass ?cols (getgrp tr) ?kept g"
    from g have gg: "g \<in> set (getgrp tr ds)" by (auto simp: getgrp_props(4))
    with kept have "g \<in> set ?keys" by force
    then have "?grp \<in> set (childnodes ?t)" unfolding kids by simp
    moreover have "data ?grp = [g]" by simp
    moreover have "\<not> is_DatasetNode ?grp" by (simp add: group_node_def)
    moreover have "dataset_node ?cols (name, ds) \<in> set (childnodes ?grp)"
      using kept gg by (simp add: group_node_def)
    ultimately show ?thesis by blast
  qed
  have 3: "occurrences ?t (named name) = map (\<lambda>g. [g]) (sorted_list_of_fset (tags ds))"
    if "tags ds \<noteq> {||}"
    using occ that by (simp add: getgrp_def)
  have 4: "occurrences ?t (named name) = [[a], [b]]" if "tags ds = {|a, b|} \<and> a < b" for a b
    using occ that by (simp add: getgrp_def sorted_list_of_fset_pair)
  have 5: "occurrences ?t (named name) = [[tr ''None'']]" if "tags ds = {||}"
    using occ that by (simp add: getgrp_def)
  from t 1 2 3 4 5 show ?thesis by blast
qed

theorem makeGrpTreeTags_membership_witness:
  "wf_doc (doc model0)
   \<and> (\<exists>t. makeGrpTreeTags id model0 = Inr t
        \<and> occurrences t (named ''a'') = [[''cal''], [''raw'']]
        \<and> occurrences t (named ''b'') = [[''None'']])"
proof -
  let ?cols = "[''name'', ''size'', ''type'', ''linkfile'']"
  have wf: "wf_doc (doc model0)" by (simp add: wf_doc_def model0_def doc0_def)
  have a_in: "(''a'', ds0\<lparr>tags := {|''raw'', ''cal''|}\<rparr>) \<in> set (doc_data (doc model0))"
    by (simp add: model0_def doc0_def)
  have a_keep: "(filter_text model0 = [] \<and> filterdims model0 = None \<and> filterdtype model0 = None)
      \<or> \<not> datasetFilterOut model0 (ds0\<lparr>tags := {|''raw'', ''cal''|}\<rparr>)
      (dataset_node ?cols (''a'', ds0\<lparr>tags := {|''raw'', ''cal''|}\<rparr>))"
    by (simp add: datasetFilterOut_def model0_def ds0_def)
  have b_in: "(''b'', ds0) \<in> set (doc_data (doc model0))"
    by (simp add: model0_def doc0_def)
  have b_keep: "(filter_text model0 = [] \<and> filterdims model0 = None \<and> filterdtype model0 = None)
      \<or> \<not> datasetFilterOut model0 ds0 (dataset_node ?cols (''b'', ds0))"
    by (simp add: datasetFilterOut_def model0_def ds0_def)
  have lt: "''cal'' < ''raw''" by simp
  have tg: "tags (ds0\<lparr>tags := {|''raw'', ''cal''|}\<rparr>) = {|''cal'', ''raw''|}" by auto
  from makeGrpTreeTags_membership [OF wf a_in a_keep, of id]
  obtain t where t: "makeGrpTreeTags id model0 = Inr t"
    and a': "\<forall>a b. tags (ds0\<lparr>tags := {|''raw'', ''cal''|}\<rparr>) = {|a, b|} \<and> a < b
        \<longrightarrow> occurrences t (named ''a'') = [[a], [b]]" by blast
  from a' tg lt have a: "occurrences t (named ''a'') = [[''cal''], [''raw'']]" by blast
  from makeGrpTreeTags_membership [OF wf b_in b_keep, of id]
  obtain t' where t': "makeGrpTreeTags id model0 = Inr t'"
    and b: "tags ds0 = {||} \<longrightarrow> occurrences t' (named ''b'') = [[''None'']]" by auto
  from t t' have "t' = t" by simp
  moreover have "tags ds0 = {||}" by (simp add: ds0_def)
  ultimately have "occurrences t (named ''b'') = [[''None'']]" using b by simp
  with wf t a show ?thesis by blast
qed


subsection \<open>The columns that the filter text is matched against\<close>

lemma getgrp_nonempty: "getgrp tr ds \<noteq> []"
  by (rule getgrp_props(3))

text \<open>
  Claim C10, as amended. The filter text is tested against the columns of the node of
  the grouping mode. For a dataset whose name, size, type and tags do not contain the
  non-empty filter text: in the mode \<open>filename\<close>, whose columns are name, size and type,
  the dataset is not in the tree, whatever its linked file is; in the mode \<open>tags\<close>,
  whose columns include the link file, it is in the tree exactly when it passes the
  dimension and datatype filters and the filter text occurs in the base name of the
  linked file, which is the value of that column.
\<close>

theorem filter_columns_by_mode:
  assumes wf: "wf_doc (doc self)"
    and inn: "(name, ds) \<in> set (doc_data (doc self))"
    and ne: "filter_text self \<noteq> []"
    and nname: "\<not> sublist (filter_text self) name"
    and nsize: "\<not> sublist (filter_text self) (userSize ds)"
    and ntype: "\<not> sublist (filter_text self) (dstype ds)"
    and ntags: "\<forall>t. t |\<in>| tags ds \<longrightarrow> \<not> sublist (filter_text self) t"
  shows "(\<exists>t. makeGrpTreeFilename tr self = Inr t \<and> occurrences t (named name) = [])
    \<and> (\<exists>t. makeGrpTreeTags tr self = Inr t
          \<and> ((occurrences t (named name) \<noteq> []) =
               ((\<forall>fd. filterdims self = Some fd \<longrightarrow> dimensions ds \<in> fd) \<and>
                (\<forall>ft. filterdtype self = Some ft \<longrightarrow> ds_datatype ds \<in> ft) \<and>
                sublist (filter_text self) (basename (datasetLinkFile ds)))))"
proof
  let ?cols3 = "[''name'', ''size'', ''type'']"
  let ?t3 = "grouped_tree [tr ''Dataset'', tr ''Size'', tr ''Type''] ?cols3
      (\<lambda>ds. [datasetLinkFile ds]) FilenameNodeClass
      (filter (passes self ?cols3) (doc_data (doc self)))"
  have "passes self ?cols3 (name, ds) =
      ((\<forall>fd. filterdims self = Some fd \<longrightarrow> dimensions ds \<in> fd) \<and>
       (\<forall>ft. filterdtype self = Some ft \<longrightarrow> ds_datatype ds \<in> ft) \<and>
       (filter_text self = [] \<or>
        (\<exists>t. t |\<in>| tags ds \<and> sublist (filter_text self) t) \<or>
        sublist (filter_text self) name \<or> sublist (filter_text self) (userSize ds) \<or>
        sublist (filter_text self) (dstype ds)))"
    by (simp add: passes_iff)
  with ne nname nsize ntype ntags have "\<not> passes self ?cols3 (name, ds)" by blast
  with wf inn have "name \<notin> fst ` set (filter (passes self ?cols3) (doc_data (doc self)))"
    by (rule kept_absent)
  then have "occurrences ?t3 (named name) = []" by (rule occurrences_grouped_absent)
  moreover have "makeGrpTreeFilename tr self = Inr ?t3"
    using wf by (rule makeGrpTreeFilename_closed)
  ultimately show "\<exists>t. makeGrpTreeFilename tr self = Inr t \<and> occurrences t (named name) = []"
    by blast
next
  let ?cols4 = "[''name'', ''size'', ''type'', ''linkfile'']"
  let ?kept = "filter (passes self ?cols4) (doc_data (doc self))"
  let ?t4 = "grouped_tree [tr ''Dataset'', tr ''Size'', tr ''Type'', tr ''Filename''] ?cols4
      (getgrp tr) TMNodeClass ?kept"
  let ?cond = "(\<forall>fd. filterdims self = Some fd \<longrightarrow> dimensions ds \<in> fd) \<and>
                (\<forall>ft. filterdtype self = Some ft \<longrightarrow> ds_datatype ds \<in> ft) \<and>
                sublist (filter_text self) (basename (datasetLinkFile ds))"
  have t: "makeGrpTreeTags tr self = Inr ?t4" using wf by (rule makeGrpTreeTags_closed)
  have "passes self ?cols4 (name, ds) =
      ((\<forall>fd. filterdims self = Some fd \<longrightarrow> dimensions ds \<in> fd) \<and>
       (\<forall>ft. filterdtype self = Some ft \<longrightarrow> ds_datatype ds \<in> ft) \<and>
       (filter_text self = [] \<or>
        (\<exists>t. t |\<in>| tags ds \<and> sublist (filter_text self) t) \<or>
        sublist (filter_text self) name \<or> sublist (filter_text self) (userSize ds) \<or>
        sublist (filter_text self) (dstype ds) \<or>
        sublist (filter_text self) (basename (datasetLinkFile ds))))"
    by (simp add: passes_iff)
  with ne nname nsize ntype ntags have p: "passes self ?cols4 (name, ds) = ?cond" by blast
  have "(occurrences ?t4 (named name) \<noteq> []) = ?cond"
  proof (cases "passes self ?cols4 (name, ds)")
    case True
    then have "(name, ds) \<in> set ?kept" using inn by simp
    with kept_distinct [OF wf]
    have "occurrences ?t4 (named name) = map (\<lambda>g. [g]) (getgrp tr ds)"
      using getgrp_props(1,2) by (rule occurrences_grouped_present)
    then have "occurrences ?t4 (named name) \<noteq> []" by (simp add: getgrp_nonempty)
    with True p show ?thesis by simp
  next
    case False
    with wf inn have "name \<notin> fst ` set ?kept" by (rule kept_absent)
    then have "occurrences ?t4 (named name) = []" by (rule occurrences_grouped_absent)
    with False p show ?thesis by simp
  qed
  with t show "\<exists>t. makeGrpTreeTags tr self = Inr t
          \<and> ((occurrences t (named name) \<noteq> []) = ?cond)" by blast
qed

lemmas tree_eval = makeGrpTreeTags_def makeGrpTreeFilename_def makeGrpTree_def
  DatasetNode_init_def doc_lookup_def datasetFilterOut_def str_find_def basename_def
  datasetLinkFile_def getgrp_def insertChildSorted_def ds0_def

text \<open>
  The claim C10 as stated fails for a dataset linked to \<^verbatim>\<open>/data/run.csv\<close> and the filter
  text \<open>data\<close>: the path of the linked file contains the text, the name, size, type
  and tags do not, and the tree grouped by tags is empty all the same, because the
  column holds the base name \<^verbatim>\<open>run.csv\<close>.
\<close>

theorem filter_columns_by_mode_counterexample:
  "0 \<le> str_find (datasetLinkFile (ds0\<lparr>linked := Some ''/data/run.csv''\<rparr>)) (filter_text model1)
   \<and> str_find ''x'' (filter_text model1) = - 1
   \<and> str_find (userSize ds0) (filter_text model1) = - 1
   \<and> str_find (dstype ds0) (filter_text model1) = - 1
   \<and> tags ds0 = {||}
   \<and> doc_data (doc model1) = [(''x'', ds0\<lparr>linked := Some ''/data/run.csv''\<rparr>)]
   \<and> makeGrpTreeTags id model1 = Inr (TMNode [''Dataset'', ''Size'', ''Type'', ''Filename''] [])"
  by (simp add: model1_def tree_eval)

theorem filter_columns_by_mode_witness:
  "(\<exists>t. makeGrpTreeFilename id (model1\<lparr>filter_text := ''run''\<rparr>) = Inr t
        \<and> occurrences t (named ''x'') = [])
   \<and> (\<exists>t. makeGrpTreeTags id (model1\<lparr>filter_text := ''run''\<rparr>) = Inr t
        \<and> occurrences t (named ''x'') \<noteq> [])"
proof -
  let ?m = "model1\<lparr>filter_text := ''run''\<rparr>"
  let ?ds = "ds0\<lparr>linked := Some ''/data/run.csv''\<rparr>"
  have wf: "wf_doc (doc ?m)" by (simp add: wf_doc_def model1_def)
  have inn: "(''x'', ?ds) \<in> set (doc_data (doc ?m))" by (simp add: model1_def)
  have ne: "filter_text ?m \<noteq> []" by simp
  have n1: "\<not> sublist (filter_text ?m) ''x''"
    by (simp add: str_find_sublist [symmetric] str_find_def)
  have n2: "\<not> sublist (filter_text ?m) (userSize ?ds)"
    by (simp add: str_find_sublist [symmetric] str_find_def ds0_def)
  have n3: "\<not> sublist (filter_text ?m) (dstype ?ds)"
    by (simp add: str_find_sublist [symmetric] str_find_def ds0_def)
  have n4: "\<forall>t. t |\<in>| tags ?ds \<longrightarrow> \<not> sublist (filter_text ?m) t"
    by (simp add: ds0_def)
  have y: "sublist (filter_text ?m) (basename (datasetLinkFile ?ds))"
    by (simp add: str_find_sublist [symmetric] str_find_def basename_def datasetLinkFile_def)
  have f: "filterdims ?m = None" "filterdtype ?m = None" by (simp_all add: model1_def)
  from filter_columns_by_mode [OF wf inn ne n1 n2 n3 n4, of id] y f
  show ?thesis by simp
qed


subsection \<open>Synchronising a tree with itself\<close>

lemma identity_map_treenode: "identity (map_treenode h n) = identity n"
  by (cases n) (simp add: identity_def split: kind.splits)

lemma unique_ids_map_treenode: "unique_ids (map_treenode h n) = unique_ids n"
proof (induction n)
  case (TreeNode x k cs ch)
  show ?case
    using TreeNode.IH by (simp add: identity_map_treenode comp_def list_all_iff)
qed

lemma find_distinct:
  "distinct (map f xs) \<Longrightarrow> x \<in> set xs \<Longrightarrow> List.find (\<lambda>y. f y = f x) xs = Some x"
proof (induction xs)
  case Nil
  then show ?case by simp
next
  case (Cons a xs)
  show ?case
  proof (cases "a = x")
    case True
    then show ?thesis by simp
  next
    case False
    with Cons.prems have x: "x \<in> set xs" by simp
    then have "f x \<in> f ` set xs" by (rule imageI)
    with Cons.prems(1) have "f a \<noteq> f x" by auto
    moreover have "List.find (\<lambda>y. f y = f x) xs = Some x"
      using Cons.IH Cons.prems(1) x by simp
    ultimately show ?thesis by simp
  qed
qed

lemma syncTree_self: "unique_ids T \<Longrightarrow> syncTree T T = T"
proof (induction T)
  case (TreeNode h k cs ch)
  from TreeNode.prems have d: "distinct (map identity ch)"
    and u: "\<And>c. c \<in> set ch \<Longrightarrow> unique_ids c" by (simp_all add: list_all_iff)
  have "(case List.find (\<lambda>o'. identity o' = identity c) ch of
           None \<Rightarrow> c | Some o' \<Rightarrow> syncTree o' c) = c" if c: "c \<in> set ch" for c
  proof -
    have "List.find (\<lambda>o'. identity o' = identity c) ch = Some c"
      using d c by (rule find_distinct)
    moreover have "syncTree c c = c" using c u [OF c] by (rule TreeNode.IH)
    ultimately show ?thesis by simp
  qed
  then have "map (\<lambda>c. case List.find (\<lambda>o'. identity o' = identity c) ch of
           None \<Rightarrow> c | Some o' \<Rightarrow> syncTree o' c) ch = ch"
    by (simp add: map_idI)
  then show ?case by simp
qed

lemma identity_leaf:
  "identity (as_treenode (dataset_node (''name'' # cs) item)) = (DatasetLeaf, [fst item])"
  by (simp add: dataset_node_def identity_def)

lemma unique_ids_leaf: "unique_ids (as_treenode (dataset_node colitems item))"
  by (simp add: dataset_node_def)

lemma unique_leaves:
  assumes "distinct (map fst xs)"
  shows "distinct (map identity (map as_treenode (map (dataset_node (''name'' # cs)) xs)))
    \<and> list_all unique_ids (map as_treenode (map (dataset_node (''name'' # cs)) xs))"
proof -
  have "map identity (map as_treenode (map (dataset_node (''name'' # cs)) xs))
      = map (\<lambda>x. (DatasetLeaf, [fst x])) xs"
    by (simp add: identity_leaf comp_def)
  moreover have "distinct (map (\<lambda>x. (DatasetLeaf, [fst x])) xs)"
    using assms by (auto simp: distinct_map inj_on_def)
  ultimately have "distinct (map identity (map as_treenode (map (dataset_node (''name'' # cs)) xs)))"
    by (simp only:)
  moreover have "list_all unique_ids (map as_treenode (map (dataset_node (''name'' # cs)) xs))"
    by (simp add: list_all_iff unique_ids_leaf)
  ultimately show ?thesis by (simp only: simp_thms)
qed

lemma as_treenode_set_childnodes_new:
  "as_treenode (set_childnodes (new_node cls d) ch) = TreeNode () GroupNode d (map as_treenode ch)"
  by (cases cls) simp_all

lemma unique_ids_group_node:
  assumes "distinct (map fst kept)"
  shows "unique_ids (as_treenode (group_node cls (''name'' # cs) grouper kept g))"
proof -
  let ?xs = "sort_key fst (filter (\<lambda>item. g \<in> set (grouper (snd item))) kept)"
  have "distinct (map fst (filter (\<lambda>item. g \<in> set (grouper (snd item))) kept))"
    using assms by (rule distinct_map_filter)
  then have "distinct (map fst ?xs)" by (simp add: distinct_map)
  then show ?thesis
    using unique_leaves [of ?xs cs]
    by (simp add: group_node_def as_treenode_set_childnodes_new)
qed

lemma identity_group_node:
  "identity (as_treenode (group_node cls colitems grouper kept g)) = (GroupNode, [g])"
  by (simp add: group_node_def as_treenode_set_childnodes_new identity_def)

lemma unique_ids_grouped_tree:
  assumes "distinct (map fst kept)"
  shows "unique_ids (as_treenode (grouped_tree titles (''name'' # cs) grouper cls kept))"
proof -
  let ?keys = "sort (remdups (concat (map (\<lambda>item. grouper (snd item)) kept)))"
  have "map identity (map as_treenode (map (group_node cls (''name'' # cs) grouper kept) ?keys))
      = map (\<lambda>g. (GroupNode, [g])) ?keys"
    by (simp add: identity_group_node comp_def)
  moreover have "distinct (map (\<lambda>g. (GroupNode, [g])) ?keys)"
    by (simp add: distinct_map inj_on_def)
  ultimately have "distinct (map identity
      (map as_treenode (map (group_node cls (''name'' # cs) grouper kept) ?keys)))"
    by (simp only:)
  moreover have "list_all unique_ids
      (map as_treenode (map (group_node cls (''name'' # cs) grouper kept) ?keys))"
    using assms by (simp add: list_all_iff unique_ids_group_node)
  ultimately show ?thesis by (simp only: grouped_tree_def as_treenode.simps unique_ids.simps list.map_comp [symmetric] simp_thms)
qed

lemma makeGrpTreeNone_closed:
  assumes wf: "wf_doc (doc self)"
  shows "makeGrpTreeNone tr self =
    Inr (TMNode [tr ''Dataset'', tr ''Size'', tr ''Type'', tr ''File'']
          (map (dataset_node [''name'', ''size'', ''type'', ''linkfile''])
             (sort_key fst (filter (passes self [''name'', ''size'', ''type'', ''linkfile''])
                (doc_data (doc self))))))"
proof -
  let ?cols = "[''name'', ''size'', ''type'', ''linkfile'']"
  let ?P = "filter (passes self ?cols) (doc_data (doc self))"
  let ?root = "TMNode [tr ''Dataset'', tr ''Size'', tr ''Type'', tr ''File''] []"
  have "makeGrpTreeNone tr self =
      Inr (set_childnodes ?root (fold insert_sorted (map (dataset_node ?cols) ?P) []))"
    using none_loop_pure [OF wf, of "doc_data (doc self)" ?root]
    by (simp add: makeGrpTreeNone_def)
  moreover have "distinct (map fst ?P)" using wf by (rule kept_distinct)
  then have "fold insert_sorted (map (dataset_node ?cols) ?P) []
      = map (dataset_node ?cols) (sort_key fst ?P)" by (rule isort_dataset_nodes)
  ultimately show ?thesis by simp
qed

lemma unique_ids_refresh_tree:
  assumes wf: "wf_doc (doc self)" and built: "refresh_tree tr self = Inr t"
  shows "unique_ids (as_treenode t)"
proof -
  have dk: "distinct (map fst (filter (passes self colitems) (doc_data (doc self))))" for colitems
    using wf by (rule kept_distinct)
  consider (none) "grouping self = ''none''" | (filename) "grouping self = ''filename''"
    | (size) "grouping self = ''size''" | (type) "grouping self = ''type''"
    | (tags) "grouping self = ''tags''"
    using built by (auto simp: refresh_tree_def split: if_splits)
  then show ?thesis
  proof cases
    case none
    with built have "makeGrpTreeNone tr self = Inr t" by (simp add: refresh_tree_def)
    with makeGrpTreeNone_closed [OF wf, of tr]
    have "t = TMNode [tr ''Dataset'', tr ''Size'', tr ''Type'', tr ''File'']
          (map (dataset_node [''name'', ''size'', ''type'', ''linkfile''])
             (sort_key fst (filter (passes self [''name'', ''size'', ''type'', ''linkfile''])
                (doc_data (doc self)))))" by simp
    moreover have "distinct (map fst
        (sort_key fst (filter (passes self [''name'', ''size'', ''type'', ''linkfile''])
                (doc_data (doc self)))))"
      using dk by (simp add: distinct_map)
    ultimately show ?thesis
      using unique_leaves [of "sort_key fst (filter (passes self [''name'', ''size'', ''type'', ''linkfile''])
                (doc_data (doc self)))" "[''size'', ''type'', ''linkfile'']"]
      by simp
  next
    case filename
    with built have "makeGrpTreeFilename tr self = Inr t" by (simp add: refresh_tree_def)
    with makeGrpTreeFilename_closed [OF wf, of tr] show ?thesis
      using unique_ids_grouped_tree [OF dk] by auto
  next
    case size
    with built have "makeGrpTreeSize tr self = Inr t" by (simp add: refresh_tree_def)
    moreover have "makeGrpTreeSize tr self =
        Inr (grouped_tree [tr ''Dataset'', tr ''Type'', tr ''Filename'']
          [''name'', ''type'', ''linkfile''] (\<lambda>ds. [userSize ds]) TMNodeClass
          (filter (passes self [''name'', ''type'', ''linkfile'']) (doc_data (doc self))))"
      unfolding makeGrpTreeSize_def by (rule makeGrpTree_closed [OF wf]) simp
    ultimately show ?thesis using unique_ids_grouped_tree [OF dk] by auto
  next
    case type
    with built have "makeGrpTreeType tr self = Inr t" by (simp add: refresh_tree_def)
    moreover have "makeGrpTreeType tr self =
        Inr (grouped_tree [tr ''Dataset'', tr ''Size'', tr ''Filename'']
          [''name'', ''size'', ''linkfile''] (\<lambda>ds. [dstype ds]) TMNodeClass
          (filter (passes self [''name'', ''size'', ''linkfile'']) (doc_data (doc self))))"
      unfolding makeGrpTreeType_def by (rule makeGrpTree_closed [OF wf]) simp
    ultimately show ?thesis using unique_ids_grouped_tree [OF dk] by auto
  next
    case tags
    with built have "makeGrpTreeTags tr self = Inr t" by (simp add: refresh_tree_def)
    with makeGrpTreeTags_closed [OF wf, of tr] show ?thesis
      using unique_ids_grouped_tree [OF dk] by auto
  qed
qed

text \<open>
  Claim C9. Let \<open>t\<close> be the tree that \<^verbatim>\<open>refresh\<close> builds, in any grouping mode, for a
  document with distinct dataset names, and let \<open>T\<close> be that tree as it is displayed:
  the same kinds, columns and children, with any handles of display state on its
  nodes. Synchronising \<open>T\<close> with itself gives \<open>T\<close>: every node keeps its handle, and the
  labels, the children and their order are unchanged.
\<close>

theorem syncTree_same_tree:
  assumes wf: "wf_doc (doc self)"
    and built: "refresh_tree tr self = Inr t"
    and shape: "map_treenode (\<lambda>h. ()) T = as_treenode t"
  shows "syncTree T T = T"
proof -
  have "unique_ids (as_treenode t)" using wf built by (rule unique_ids_refresh_tree)
  then have "unique_ids (map_treenode (\<lambda>h. ()) T)" using shape by simp
  then have "unique_ids T" by (simp only: unique_ids_map_treenode)
  then show ?thesis by (rule syncTree_self)
qed

theorem syncTree_same_tree_witness:
  "wf_doc (doc model0)
   \<and> refresh_tree id model0 =
       Inr (TMNode [''Dataset'', ''Size'', ''Type'', ''File'']
             [DatasetNode [''a'', ''0'', ''1D'', []] [''name'', ''size'', ''type'', ''linkfile''] [],
              DatasetNode [''b'', ''0'', ''1D'', []] [''name'', ''size'', ''type'', ''linkfile''] []])
   \<and> syncTree
        (TreeNode (0::nat) GroupNode [''Dataset'', ''Size'', ''Type'', ''File'']
           [TreeNode 1 DatasetLeaf [''a'', ''0'', ''1D'', []] [],
            TreeNode 2 DatasetLeaf [''b'', ''0'', ''1D'', []] []])
        (TreeNode 0 GroupNode [''Dataset'', ''Size'', ''Type'', ''File'']
           [TreeNode 1 DatasetLeaf [''a'', ''0'', ''1D'', []] [],
            TreeNode 2 DatasetLeaf [''b'', ''0'', ''1D'', []] []])
      = TreeNode 0 GroupNode [''Dataset'', ''Size'', ''Type'', ''File'']
           [TreeNode 1 DatasetLeaf [''a'', ''0'', ''1D'', []] [],
            TreeNode 2 DatasetLeaf [''b'', ''0'', ''1D'', []] []]"
proof -
  let ?t = "TMNode [''Dataset'', ''Size'', ''Type'', ''File'']
             [DatasetNode [''a'', ''0'', ''1D'', []] [''name'', ''size'', ''type'', ''linkfile''] [],
              DatasetNode [''b'', ''0'', ''1D'', []] [''name'', ''size'', ''type'', ''linkfile''] []]"
  let ?T = "TreeNode (0::nat) GroupNode [''Dataset'', ''Size'', ''Type'', ''File'']
           [TreeNode 1 DatasetLeaf [''a'', ''0'', ''1D'', []] [],
            TreeNode 2 DatasetLeaf [''b'', ''0'', ''1D'', []] []]"
  have wf: "wf_doc (doc model0)" by (simp add: wf_doc_def model0_def doc0_def)
  have built: "refresh_tree id model0 = Inr ?t"
    by (simp add: refresh_tree_def makeGrpTreeNone_def model0_def doc0_def tree_eval)
  have shape: "map_treenode (\<lambda>h. ()) ?T = as_treenode ?t" by simp
  from syncTree_same_tree [OF wf built shape] wf built show ?thesis by simp
qed


end
